theory Spec2Isabelle
  imports Complex_Main "HOL-Library.Word"
begin

unbundle bit_operations_syntax

section \<open>Bytes and runtime panics\<close>

type_synonym byte = "8 word"

text \<open>The Go runtime panics that the modelled functions can raise.\<close>

datatype panic = IndexOutOfRange | SliceBoundsOutOfRange | NilDereference

section \<open>Script classes (thought/txscript.go, thoughtd/txscript/standard.go)\<close>

text \<open>\<open>type ScriptClass byte\<close>, with the six constants numbered by \<open>iota\<close>.\<close>

type_synonym ScriptClass = byte

definition NonStandardTy :: ScriptClass where "NonStandardTy = 0"
definition PubKeyTy :: ScriptClass where "PubKeyTy = 1"
definition PubKeyHashTy :: ScriptClass where "PubKeyHashTy = 2"
definition ScriptHashTy :: ScriptClass where "ScriptHashTy = 3"
definition MultiSigTy :: ScriptClass where "MultiSigTy = 4"
definition NullDataTy :: ScriptClass where "NullDataTy = 5"

definition scriptClassToName :: "string list" where
  "scriptClassToName =
     [''nonstandard'', ''pubkey'', ''pubkeyhash'', ''scripthash'', ''multisig'', ''nulldata'']"

text \<open>
  \<open>func (t ScriptClass) String() string\<close>. The guard compares with \<open>>\<close>, and the
  index expression \<open>scriptClassToName[t]\<close> panics when \<open>t\<close> is not below the length of
  the slice; both are written out.
\<close>

definition ScriptClass_String :: "ScriptClass \<Rightarrow> panic + string" where
  "ScriptClass_String t =
     (if int (unat t) > int (length scriptClassToName) \<or> int (unat t) < 0 then Inr ''Invalid''
      else if unat t < length scriptClassToName then Inr (scriptClassToName ! unat t)
      else Inl IndexOutOfRange)"

section \<open>Opcodes and the script tokenizer\<close>

text \<open>
  The opcode constants used by the classifiers. The file that declares them is not among
  the source files; the values are those of the Bitcoin script language, and the
  pay-to-pubkey-hash script of \<open>TestConstructionService\<close>
  (\<open>76 a9 14 ... 88 ac\<close>, type \<open>pubkeyhash\<close>) fixes five of them.
\<close>

definition OP_0 :: byte where "OP_0 = 0x00"
definition OP_DATA_20 :: byte where "OP_DATA_20 = 0x14"
definition OP_DATA_33 :: byte where "OP_DATA_33 = 0x21"
definition OP_DATA_65 :: byte where "OP_DATA_65 = 0x41"
definition OP_DATA_75 :: byte where "OP_DATA_75 = 0x4b"
definition OP_PUSHDATA1 :: byte where "OP_PUSHDATA1 = 0x4c"
definition OP_PUSHDATA2 :: byte where "OP_PUSHDATA2 = 0x4d"
definition OP_PUSHDATA4 :: byte where "OP_PUSHDATA4 = 0x4e"
definition OP_1 :: byte where "OP_1 = 0x51"
definition OP_16 :: byte where "OP_16 = 0x60"
definition OP_RETURN :: byte where "OP_RETURN = 0x6a"
definition OP_DUP :: byte where "OP_DUP = 0x76"
definition OP_EQUAL :: byte where "OP_EQUAL = 0x87"
definition OP_EQUALVERIFY :: byte where "OP_EQUALVERIFY = 0x88"
definition OP_HASH160 :: byte where "OP_HASH160 = 0xa9"
definition OP_CODESEPARATOR :: byte where "OP_CODESEPARATOR = 0xab"
definition OP_CHECKSIG :: byte where "OP_CHECKSIG = 0xac"
definition OP_CHECKMULTISIG :: byte where "OP_CHECKMULTISIG = 0xae"

definition MaxDataCarrierSize :: nat where "MaxDataCarrierSize = 80"
definition MaxPubKeysPerMultiSig :: nat where "MaxPubKeysPerMultiSig = 20"

text \<open>
  Modelled from the spec: the \<open>length\<close> field of the opcode table \<open>opcodeArray\<close>,
  whose file is not among the source files. A positive length is the size of the whole
  instruction (opcode byte and data); \<open>-1\<close>, \<open>-2\<close>, \<open>-4\<close> is the number of bytes of
  the little-endian length that follows \<open>OP_PUSHDATA1/2/4\<close>. The function
  \<open>checkMinimalDataPush\<close> of the engine relies on the same table: the opcodes
  \<open>1..75\<close> push that many bytes.
\<close>

definition opcodeLength :: "byte \<Rightarrow> int" where
  "opcodeLength b =
     (if 1 \<le> b \<and> b \<le> OP_DATA_75 then int (unat b) + 1
      else if b = OP_PUSHDATA1 then - 1
      else if b = OP_PUSHDATA2 then - 2
      else if b = OP_PUSHDATA4 then - 4
      else 1)"

text \<open>Little-endian unsigned value of a byte string.\<close>

definition leUint :: "byte list \<Rightarrow> int" where
  "leUint bs = foldr (\<lambda>b a. uint b + 256 * a) bs 0"

text \<open>
  Modelled from the spec: \<open>ScriptTokenizer\<close> with \<open>MakeScriptTokenizer\<close>, \<open>Done\<close>,
  \<open>Next\<close>, \<open>Opcode\<close>, \<open>Data\<close>, \<open>ByteIndex\<close>, \<open>Script\<close> and \<open>Err\<close>; its file is
  not among the source files, only its callers are. The fields are those the engine reads
  (\<open>tokenizer.op\<close>, \<open>tokenizer.Data()\<close>). \<open>offset\<close> is an \<open>int32\<close> in Go; scripts
  are taken to be shorter than \<open>2^31\<close> bytes, so it is a natural number here. \<open>op\<close> is
  only read after a successful \<open>Next\<close>. A parsed push length that does not fit the rest
  of the script, or that is negative as an \<open>int32\<close>, is a malformed push.
\<close>

record ScriptTokenizer =
  script :: "byte list"
  offset :: nat
  op :: byte
  data :: "byte list"
  err :: bool

definition MakeScriptTokenizer :: "byte list \<Rightarrow> ScriptTokenizer" where
  "MakeScriptTokenizer s = \<lparr>script = s, offset = 0, op = 0, data = [], err = False\<rparr>"

definition Done :: "ScriptTokenizer \<Rightarrow> bool" where
  "Done t = (err t \<or> length (script t) \<le> offset t)"

definition Next :: "ScriptTokenizer \<Rightarrow> bool \<times> ScriptTokenizer" where
  "Next t =
     (if Done t then (False, t)
      else
        let opc = script t ! offset t; len = opcodeLength opc in
        if len = 1 then (True, t\<lparr>offset := offset t + 1, op := opc, data := []\<rparr>)
        else if 1 < len then
          (let scr = drop (offset t) (script t) in
           if int (length scr) < len then (False, t\<lparr>err := True\<rparr>)
           else (True, t\<lparr>offset := offset t + nat len, op := opc,
                          data := take (nat len - 1) (drop 1 scr)\<rparr>))
        else
          (let scr = drop (offset t + 1) (script t) in
           if int (length scr) < - len then (False, t\<lparr>err := True\<rparr>)
           else
             let dataLen = leUint (take (nat (- len)) scr);
                 scr' = drop (nat (- len)) scr
             in if int (length scr') < dataLen \<or> 2147483648 \<le> dataLen
                then (False, t\<lparr>err := True\<rparr>)
                else (True, t\<lparr>offset := offset t + 1 + nat (- len) + nat dataLen, op := opc,
                               data := take (nat dataLen) scr'\<rparr>)))"

text \<open>
  Modelled from the spec: \<open>isSmallInt\<close> and \<open>asSmallInt\<close> (``\<open>m,n\<close> small ints''):
  the opcodes \<open>OP_0\<close> and \<open>OP_1 .. OP_16\<close>, and the number each stands for.
\<close>

definition isSmallInt :: "byte \<Rightarrow> bool" where
  "isSmallInt b = (b = OP_0 \<or> (OP_1 \<le> b \<and> b \<le> OP_16))"

definition asSmallInt :: "byte \<Rightarrow> int" where
  "asSmallInt b = (if b = OP_0 then 0 else int (unat (b - (OP_1 - 1))))"

lemma Next_progress:
  assumes "Next t = (True, t')"
  shows "script t' = script t \<and> offset t < offset t' \<and> offset t < length (script t)"
proof -
  have nd: "\<not> Done t" using assms by (auto simp: Next_def)
  have pos: "0 < nat (opcodeLength b)" if "1 < opcodeLength b" for b using that by simp
  show ?thesis
    using assms nd
    by (auto simp: Next_def Done_def Let_def split: if_splits)
qed

lemma Next_measure:
  assumes "Next t = (True, t')"
  shows "length (script t') - offset t' < length (script t) - offset t"
  using Next_progress [OF assms] by auto

text \<open>
  Modelled from the spec: \<open>checkScriptParses\<close>, which runs the tokenizer to the end of
  the script and returns its error.
\<close>

datatype script_error = ErrMalformedPush

function parseToEnd :: "ScriptTokenizer \<Rightarrow> ScriptTokenizer" where
  "parseToEnd t = (case Next t of (False, t') \<Rightarrow> t' | (True, t') \<Rightarrow> parseToEnd t')"
  by pat_completeness auto
termination
  by (relation "measure (\<lambda>t. length (script t) - offset t)")
     (auto dest: Next_measure [OF sym])

declare parseToEnd.simps [simp del]

definition checkScriptParses :: "byte list \<Rightarrow> script_error option" where
  "checkScriptParses s =
     (if err (parseToEnd (MakeScriptTokenizer s)) then Some ErrMalformedPush else None)"

text \<open>
  Modelled from the spec: \<open>removeOpcodeRaw\<close> (``Strip \<open>OP_CODESEPARATOR\<close> from
  \<open>script_code\<close>''). The instructions with the given opcode are left out; the script is
  returned as it is when none is found. \<open>result\<close> is \<open>None\<close> while it is still \<open>nil\<close>.
\<close>

function removeOpcodeLoop ::
  "ScriptTokenizer \<Rightarrow> byte \<Rightarrow> nat \<Rightarrow> byte list option \<Rightarrow> byte list option"
where
  "removeOpcodeLoop t opcode prevOffset result =
     (case Next t of
        (False, t') \<Rightarrow> result
      | (True, t') \<Rightarrow>
          removeOpcodeLoop t' opcode (offset t')
            (if op t' = opcode then
               (case result of None \<Rightarrow> Some (take prevOffset (script t')) | Some r \<Rightarrow> Some r)
             else
               (case result of None \<Rightarrow> None
                | Some r \<Rightarrow> Some (r @ take (offset t' - prevOffset) (drop prevOffset (script t'))))))"
  by pat_completeness auto
termination
  by (relation "measure (\<lambda>(t, opcode, prevOffset, result). length (script t) - offset t)")
     (auto dest: Next_measure [OF sym])

declare removeOpcodeLoop.simps [simp del]

definition removeOpcodeRaw :: "byte list \<Rightarrow> byte \<Rightarrow> byte list" where
  "removeOpcodeRaw s opcode =
     (if length s = 0 then s
      else case removeOpcodeLoop (MakeScriptTokenizer s) opcode 0 None of
             None \<Rightarrow> s | Some r \<Rightarrow> r)"

section \<open>Standard script templates (thought/txscript.go, thoughtd/txscript/standard.go)\<close>

text \<open>
  The two files hold the same classifier functions, word for word. A returned \<open>nil\<close> slice
  is \<open>None\<close>; the slices returned otherwise are never empty.
\<close>

definition isStrictPubKeyEncoding :: "byte list \<Rightarrow> bool" where
  "isStrictPubKeyEncoding pubKey =
     (if length pubKey = 33 \<and> (pubKey ! 0 = 0x02 \<or> pubKey ! 0 = 0x03) then True
      else if length pubKey = 65
        then (pubKey ! 0 = 0x04 \<or> pubKey ! 0 = 0x06 \<or> pubKey ! 0 = 0x07)
      else False)"

definition extractPubKeyHash :: "byte list \<Rightarrow> byte list option" where
  "extractPubKeyHash s =
     (if length s = 25 \<and> s ! 0 = OP_DUP \<and> s ! 1 = OP_HASH160 \<and> s ! 2 = OP_DATA_20 \<and>
         s ! 23 = OP_EQUALVERIFY \<and> s ! 24 = OP_CHECKSIG
      then Some (take 20 (drop 3 s)) else None)"

definition isPubKeyHashScript :: "byte list \<Rightarrow> bool" where
  "isPubKeyHashScript s = (extractPubKeyHash s \<noteq> None)"

definition extractScriptHash :: "byte list \<Rightarrow> byte list option" where
  "extractScriptHash s =
     (if length s = 23 \<and> s ! 0 = OP_HASH160 \<and> s ! 1 = OP_DATA_20 \<and> s ! 22 = OP_EQUAL
      then Some (take 20 (drop 2 s)) else None)"

definition isScriptHashScript :: "byte list \<Rightarrow> bool" where
  "isScriptHashScript s = (extractScriptHash s \<noteq> None)"

definition extractCompressedPubKey :: "byte list \<Rightarrow> byte list option" where
  "extractCompressedPubKey s =
     (if length s = 35 \<and> s ! 34 = OP_CHECKSIG \<and> s ! 0 = OP_DATA_33 \<and>
         (s ! 1 = 0x02 \<or> s ! 1 = 0x03)
      then Some (take 33 (drop 1 s)) else None)"

definition extractUncompressedPubKey :: "byte list \<Rightarrow> byte list option" where
  "extractUncompressedPubKey s =
     (if length s = 67 \<and> s ! 66 = OP_CHECKSIG \<and> s ! 0 = OP_DATA_65 \<and>
         (s ! 1 = 0x04 \<or> s ! 1 = 0x06 \<or> s ! 1 = 0x07)
      then Some (take 65 (drop 1 s)) else None)"

definition extractPubKey :: "byte list \<Rightarrow> byte list option" where
  "extractPubKey s =
     (case extractCompressedPubKey s of Some pubKey \<Rightarrow> Some pubKey
      | None \<Rightarrow> extractUncompressedPubKey s)"

definition isPubKeyScript :: "byte list \<Rightarrow> bool" where
  "isPubKeyScript s = (extractPubKey s \<noteq> None)"

record multiSigDetails =
  requiredSigs :: int
  numPubKeys :: int
  pubKeys :: "byte list list"
  valid :: bool

text \<open>The zero value \<open>multiSigDetails{}\<close>.\<close>

definition noMultiSigDetails :: multiSigDetails where
  "noMultiSigDetails = \<lparr>requiredSigs = 0, numPubKeys = 0, pubKeys = [], valid = False\<rparr>"

text \<open>
  The loop of \<open>extractMultisigScriptDetails\<close> over the public keys. It returns the
  tokenizer, the number of keys counted and the keys collected when the loop is left,
  either by \<open>break\<close> at a small integer or because \<open>Next\<close> returned false.
\<close>

function multisigKeysLoop ::
  "ScriptTokenizer \<Rightarrow> bool \<Rightarrow> int \<Rightarrow> byte list list \<Rightarrow> ScriptTokenizer \<times> int \<times> byte list list"
where
  "multisigKeysLoop t extractPubKeys n pks =
     (case Next t of
        (False, t') \<Rightarrow> (t', n, pks)
      | (True, t') \<Rightarrow>
          if isSmallInt (op t') then (t', n, pks)
          else multisigKeysLoop t' extractPubKeys (n + 1)
                 (if \<not> isStrictPubKeyEncoding (data t') then pks
                  else if extractPubKeys then pks @ [data t'] else pks))"
  by pat_completeness auto
termination
  by (relation "measure (\<lambda>(t, e, n, pks). length (script t) - offset t)")
     (auto dest: Next_measure [OF sym])

declare multisigKeysLoop.simps [simp del]

definition extractMultisigScriptDetails :: "byte list \<Rightarrow> bool \<Rightarrow> multiSigDetails" where
  "extractMultisigScriptDetails s extractPubKeys =
     (if length s < 3 \<or> s ! (length s - 1) \<noteq> OP_CHECKMULTISIG then noMultiSigDetails
      else
        case Next (MakeScriptTokenizer s) of (ok, t1) \<Rightarrow>
        if \<not> ok \<or> \<not> isSmallInt (op t1) then noMultiSigDetails
        else
          case multisigKeysLoop t1 extractPubKeys 0 [] of (t2, n, pks) \<Rightarrow>
          if Done t2 then noMultiSigDetails
          else if \<not> isSmallInt (op t2) \<or> asSmallInt (op t2) \<noteq> n then noMultiSigDetails
          else if int (length (script t2)) - int (offset t2) \<noteq> 1 then noMultiSigDetails
          else \<lparr>requiredSigs = asSmallInt (op t1), numPubKeys = n, pubKeys = pks, valid = True\<rparr>)"

definition isMultisigScript :: "byte list \<Rightarrow> bool" where
  "isMultisigScript s = valid (extractMultisigScriptDetails s False)"

definition isNullDataScript :: "byte list \<Rightarrow> bool" where
  "isNullDataScript s =
     (if length s < 1 \<or> s ! 0 \<noteq> OP_RETURN then False
      else if length s = 1 then True
      else
        case Next (MakeScriptTokenizer (drop 1 s)) of (ok, t) \<Rightarrow>
          ok \<and> Done t \<and> (isSmallInt (op t) \<or> op t \<le> OP_PUSHDATA4) \<and>
          length (data t) \<le> MaxDataCarrierSize)"

definition typeOfScript :: "byte list \<Rightarrow> ScriptClass" where
  "typeOfScript s =
     (if isPubKeyScript s then PubKeyTy
      else if isPubKeyHashScript s then PubKeyHashTy
      else if isScriptHashScript s then ScriptHashTy
      else if isMultisigScript s then MultiSigTy
      else if isNullDataScript s then NullDataTy
      else NonStandardTy)"

definition GetScriptClass :: "byte list \<Rightarrow> ScriptClass" where
  "GetScriptClass s = typeOfScript s"

section \<open>Network parameters (thoughtd/chaincfg/params.go)\<close>

record Params =
  Name :: string
  Net :: "32 word"
  DefaultPort :: string
  PubKeyHashAddrID :: byte
  ScriptHashAddrID :: byte
  PrivateKeyID :: byte
  HDPrivateKeyID :: "byte list"
  HDPublicKeyID :: "byte list"
  HDCoinType :: "32 word"

definition MainNetParams :: Params where
  "MainNetParams =
     \<lparr>Name = ''main'', Net = 0x59472ee4, DefaultPort = ''10618'',
      PubKeyHashAddrID = 0x07, ScriptHashAddrID = 0x09, PrivateKeyID = 0x7b,
      HDPrivateKeyID = [0x5a, 0xeb, 0xd8, 0xc6], HDPublicKeyID = [0xfb, 0xc6, 0xa0, 0x0d],
      HDCoinType = 5\<rparr>"

definition TestNet3Params :: Params where
  "TestNet3Params =
     \<lparr>Name = ''test'', Net = 0x2b9939bf, DefaultPort = ''11618'',
      PubKeyHashAddrID = 0x6d, ScriptHashAddrID = 0xc1, PrivateKeyID = 0xeb,
      HDPrivateKeyID = [0xb6, 0xf1, 0x3f, 0x50], HDPublicKeyID = [0x5d, 0x40, 0x5f, 0x7a],
      HDCoinType = 1\<rparr>"

section \<open>SHA-256 and Base58Check\<close>

text \<open>
  Modelled from the spec: the hash behind ``double-SHA-256'' (\<open>chainhash.DoubleHashB\<close>,
  the Base58Check checksum); the packages that compute it are not among the source files.
  This is SHA-256 as FIPS 180-4 defines it. The 32-bit words are integers in
  \<open>0 ..< 2^32\<close> with the wrap-around written out.
\<close>

definition rotr32 :: "nat \<Rightarrow> int \<Rightarrow> int" where
  "rotr32 n x = (x div 2 ^ n) + (x mod 2 ^ n) * 2 ^ (32 - n)"

definition add32 :: "int \<Rightarrow> int \<Rightarrow> int" where
  "add32 x y = (x + y) mod 4294967296"

definition sha_Ch :: "int \<Rightarrow> int \<Rightarrow> int \<Rightarrow> int" where
  "sha_Ch x y z = (x AND y) XOR ((4294967295 - x) AND z)"

definition sha_Maj :: "int \<Rightarrow> int \<Rightarrow> int \<Rightarrow> int" where
  "sha_Maj x y z = (x AND y) XOR (x AND z) XOR (y AND z)"

definition bsig0 :: "int \<Rightarrow> int" where
  "bsig0 x = rotr32 2 x XOR rotr32 13 x XOR rotr32 22 x"

definition bsig1 :: "int \<Rightarrow> int" where
  "bsig1 x = rotr32 6 x XOR rotr32 11 x XOR rotr32 25 x"

definition ssig0 :: "int \<Rightarrow> int" where
  "ssig0 x = rotr32 7 x XOR rotr32 18 x XOR (x div 8)"

definition ssig1 :: "int \<Rightarrow> int" where
  "ssig1 x = rotr32 17 x XOR rotr32 19 x XOR (x div 1024)"

text \<open>
  The round constants (the first 32 bits of the fractional parts of the cube roots of the
  first 64 primes) and the initial hash value (of the square roots of the first 8 primes).
\<close>

definition K256 :: "int list" where
  "K256 =
     [1116352408, 1899447441, 3049323471, 3921009573, 961987163, 1508970993,
      2453635748, 2870763221, 3624381080, 310598401, 607225278, 1426881987,
      1925078388, 2162078206, 2614888103, 3248222580, 3835390401, 4022224774,
      264347078, 604807628, 770255983, 1249150122, 1555081692, 1996064986,
      2554220882, 2821834349, 2952996808, 3210313671, 3336571891, 3584528711,
      113926993, 338241895, 666307205, 773529912, 1294757372, 1396182291,
      1695183700, 1986661051, 2177026350, 2456956037, 2730485921, 2820302411,
      3259730800, 3345764771, 3516065817, 3600352804, 4094571909, 275423344,
      430227734, 506948616, 659060556, 883997877, 958139571, 1322822218,
      1537002063, 1747873779, 1955562222, 2024104815, 2227730452, 2361852424,
      2428436474, 2756734187, 3204031479, 3329325298]"

definition H256 :: "int list" where
  "H256 =
     [1779033703, 3144134277, 1013904242, 2773480762,
      1359893119, 2600822924, 528734635, 1541459225]"

fun be32_words :: "byte list \<Rightarrow> int list" where
  "be32_words (a # b # c # d # r) =
     (16777216 * uint a + 65536 * uint b + 256 * uint c + uint d) # be32_words r"
| "be32_words _ = []"

definition be32_bytes :: "int \<Rightarrow> byte list" where
  "be32_bytes w =
     [word_of_int (w div 16777216), word_of_int (w div 65536), word_of_int (w div 256),
      word_of_int w]"

text \<open>The message schedule, newest word first.\<close>

fun sha_schedule :: "nat \<Rightarrow> int list \<Rightarrow> int list" where
  "sha_schedule 0 ws = ws"
| "sha_schedule (Suc n) ws =
     sha_schedule n
       (add32 (add32 (ssig1 (ws ! 1)) (ws ! 6)) (add32 (ssig0 (ws ! 14)) (ws ! 15)) # ws)"

type_synonym sha_state = "int \<times> int \<times> int \<times> int \<times> int \<times> int \<times> int \<times> int"

fun sha_round :: "sha_state \<Rightarrow> int \<times> int \<Rightarrow> sha_state" where
  "sha_round (a, b, c, d, e, f, g, h) (k, w) =
     (let t1 = add32 (add32 (add32 h (bsig1 e)) (add32 (sha_Ch e f g) k)) w;
          t2 = add32 (bsig0 a) (sha_Maj a b c)
      in (add32 t1 t2, a, b, c, add32 d t1, e, f, g))"

fun sha_compress :: "int list \<Rightarrow> byte list \<Rightarrow> int list" where
  "sha_compress [a, b, c, d, e, f, g, h] blk =
     (let ws = rev (sha_schedule 48 (rev (be32_words blk)));
          (a', b', c', d', e', f', g', h') =
             foldl sha_round (a, b, c, d, e, f, g, h) (zip K256 ws)
      in [add32 a a', add32 b b', add32 c c', add32 d d',
          add32 e e', add32 f f', add32 g g', add32 h h'])"
| "sha_compress hs blk = hs"

fun sha_blocks :: "nat \<Rightarrow> byte list \<Rightarrow> byte list list" where
  "sha_blocks 0 bs = []"
| "sha_blocks (Suc n) bs = take 64 bs # sha_blocks n (drop 64 bs)"

definition be64_bytes :: "64 word \<Rightarrow> byte list" where
  "be64_bytes w =
     [ucast (drop_bit 56 w), ucast (drop_bit 48 w), ucast (drop_bit 40 w), ucast (drop_bit 32 w),
      ucast (drop_bit 24 w), ucast (drop_bit 16 w), ucast (drop_bit 8 w), ucast w]"

definition sha_pad :: "byte list \<Rightarrow> byte list" where
  "sha_pad m =
     m @ [0x80] @ replicate ((119 - length m mod 64) mod 64) 0 @
     be64_bytes (8 * word_of_nat (length m))"

definition sha256 :: "byte list \<Rightarrow> byte list" where
  "sha256 m =
     (let p = sha_pad m
      in concat (map be32_bytes (foldl sha_compress H256 (sha_blocks (length p div 64) p))))"

text \<open>\<open>chainhash.DoubleHashB\<close>: SHA-256 of the SHA-256.\<close>

definition DoubleHashB :: "byte list \<Rightarrow> byte list" where
  "DoubleHashB b = sha256 (sha256 b)"

text \<open>
  Modelled from the spec: Base58Check (``Encoding is Base58Check (double-SHA-256 4-byte
  checksum)''); the \<open>base58\<close> package is not among the source files. The bytes are read
  as one big-endian number and written in base 58, most significant digit first, after
  one \<open>1\<close> for every leading zero byte.
\<close>

definition b58Alphabet :: string where
  "b58Alphabet = ''123456789ABCDEFGHJKLMNPQRSTUVWXYZabcdefghijkmnopqrstuvwxyz''"

definition beUint :: "byte list \<Rightarrow> int" where
  "beUint bs = foldl (\<lambda>a b. 256 * a + uint b) 0 bs"

function b58Digits :: "int \<Rightarrow> string \<Rightarrow> string" where
  "b58Digits x acc =
     (if x \<le> 0 then acc else b58Digits (x div 58) (b58Alphabet ! nat (x mod 58) # acc))"
  by pat_completeness auto
termination
  by (relation "measure (\<lambda>(x, acc). nat x)") auto

declare b58Digits.simps [simp del]

definition base58_Encode :: "byte list \<Rightarrow> string" where
  "base58_Encode b =
     replicate (length (takeWhile (\<lambda>x. x = 0) b)) (CHR ''1'') @ b58Digits (beUint b) []"

definition base58_checksum :: "byte list \<Rightarrow> byte list" where
  "base58_checksum b = take 4 (DoubleHashB b)"

definition base58_CheckEncode :: "byte list \<Rightarrow> byte \<Rightarrow> string" where
  "base58_CheckEncode input version =
     base58_Encode ((version # input) @ base58_checksum (version # input))"

section \<open>Addresses and \<open>ExtractPkScriptAddrs\<close>\<close>

text \<open>
  Modelled from the spec: the addresses of the \<open>util\<close> package (``Addresses are derived
  from hashes using network-specific version bytes''), which is not among the source
  files. A pay-to-pubkey-hash or pay-to-script-hash address is a 20-byte hash with the
  version byte of its network, and its string is the Base58Check encoding of the two. A
  pay-to-pubkey address is built from a parsed public key; parsing a key is elliptic-curve
  arithmetic, so its constructor \<open>NewAddressPubKey\<close> is a parameter here and its payload
  is left abstract.
\<close>

datatype 'k Address =
    AddressPubKeyHash "byte list" byte
  | AddressScriptHash "byte list" byte
  | AddressPubKey 'k

datatype addr_error = ErrInvalidHashLength

definition NewAddressPubKeyHash :: "byte list \<Rightarrow> Params \<Rightarrow> addr_error + 'k Address" where
  "NewAddressPubKeyHash pkHash net =
     (if length pkHash \<noteq> 20 then Inl ErrInvalidHashLength
      else Inr (AddressPubKeyHash pkHash (PubKeyHashAddrID net)))"

definition NewAddressScriptHashFromHash :: "byte list \<Rightarrow> Params \<Rightarrow> addr_error + 'k Address" where
  "NewAddressScriptHashFromHash scriptHash net =
     (if length scriptHash \<noteq> 20 then Inl ErrInvalidHashLength
      else Inr (AddressScriptHash scriptHash (ScriptHashAddrID net)))"

fun EncodeAddress :: "'k Address \<Rightarrow> string option" where
  "EncodeAddress (AddressPubKeyHash h netID) = Some (base58_CheckEncode h netID)"
| "EncodeAddress (AddressScriptHash h netID) = Some (base58_CheckEncode h netID)"
| "EncodeAddress (AddressPubKey k) = None"

definition pubKeyHashToAddrs :: "byte list \<Rightarrow> Params \<Rightarrow> 'k Address list" where
  "pubKeyHashToAddrs h params =
     (case NewAddressPubKeyHash h params of Inr a \<Rightarrow> [a] | Inl e \<Rightarrow> [])"

definition scriptHashToAddrs :: "byte list \<Rightarrow> Params \<Rightarrow> 'k Address list" where
  "scriptHashToAddrs h params =
     (case NewAddressScriptHashFromHash h params of Inr a \<Rightarrow> [a] | Inl e \<Rightarrow> [])"

text \<open>
  \<open>ExtractPkScriptAddrs\<close> returns the class, the addresses and the number of required
  signatures (its error is always \<open>nil\<close>).
\<close>

definition ExtractPkScriptAddrs ::
  "(byte list \<Rightarrow> Params \<Rightarrow> 'k option) \<Rightarrow> byte list \<Rightarrow> Params \<Rightarrow> ScriptClass \<times> 'k Address list \<times> int"
where
  "ExtractPkScriptAddrs NewAddressPubKey pkScript chainParams =
     (case extractPubKeyHash pkScript of
        Some h \<Rightarrow> (PubKeyHashTy, pubKeyHashToAddrs h chainParams, 1)
      | None \<Rightarrow>
     (case extractScriptHash pkScript of
        Some h \<Rightarrow> (ScriptHashTy, scriptHashToAddrs h chainParams, 1)
      | None \<Rightarrow>
     (case extractPubKey pkScript of
        Some d \<Rightarrow>
          (PubKeyTy,
           (case NewAddressPubKey d chainParams of Some k \<Rightarrow> [AddressPubKey k] | None \<Rightarrow> []), 1)
      | None \<Rightarrow>
     (let details = extractMultisigScriptDetails pkScript True in
      if valid details then
        (MultiSigTy,
         concat (map (\<lambda>pubkey. case NewAddressPubKey pubkey chainParams of
                                  Some k \<Rightarrow> [AddressPubKey k] | None \<Rightarrow> [])
                     (pubKeys details)),
         requiredSigs details)
      else if isNullDataScript pkScript then (NullDataTy, [], 0)
      else (NonStandardTy, [], 0)))))"

section \<open>Transactions in memory\<close>

text \<open>
  Modelled from the spec: the transaction types of the \<open>wire\<close> package (``Transaction:
  inputs, outputs, locktime, version; Input: outpoint, signature script, sequence;
  Output: value, script''), which is not among the source files. \<open>MsgTx\<close> holds slices
  of pointers, \<open>[]*TxIn\<close> and \<open>[]*TxOut\<close>, and \<open>calcSignatureHash\<close> takes a
  \<open>*wire.MsgTx\<close>, so the structures live in a store: three arrays of cells, a pointer
  being the index of its cell. A pointer that is not the index of a cell is \<open>nil\<close>,
  and reading through it panics. A byte slice is a value: the functions modelled here
  assign slices, they never write into one.
\<close>

record OutPoint =
  Hash :: "byte list"
  Index :: "32 word"

record TxIn =
  PreviousOutPoint :: OutPoint
  SignatureScript :: "byte list"
  Witness :: "byte list list"
  Sequence :: "32 word"

record TxOut =
  Value :: "64 word"
  PkScript :: "byte list"

record MsgTx =
  Version :: "32 word"
  TxIn :: "nat list"
  TxOut :: "nat list"
  LockTime :: "32 word"

record heap =
  txs :: "MsgTx list"
  txins :: "TxIn list"
  txouts :: "TxOut list"

definition deref :: "'a list \<Rightarrow> nat \<Rightarrow> panic + 'a" where
  "deref cells p = (if p < length cells then Inr (cells ! p) else Inl NilDereference)"

fun derefAll :: "'a list \<Rightarrow> nat list \<Rightarrow> panic + 'a list" where
  "derefAll cells [] = Inr []"
| "derefAll cells (p # ps) =
     (case deref cells p of
        Inl e \<Rightarrow> Inl e
      | Inr v \<Rightarrow> (case derefAll cells ps of Inl e \<Rightarrow> Inl e | Inr vs \<Rightarrow> Inr (v # vs)))"

text \<open>
  The loop \<open>for i := range ptrs { *ptrs[i] = f(i, *ptrs[i]) }\<close>, from index \<open>i\<close> on.
\<close>

fun forRange :: "(nat \<Rightarrow> 'a \<Rightarrow> 'a) \<Rightarrow> nat list \<Rightarrow> nat \<Rightarrow> 'a list \<Rightarrow> 'a list" where
  "forRange f [] i cells = cells"
| "forRange f (p # ps) i cells = forRange f ps (Suc i) (cells[p := f i (cells ! p)])"

section \<open>Serialisation of a transaction\<close>

text \<open>
  Modelled from the spec: \<open>MsgTx.SerializeNoWitness\<close> (``Serialize (no witness)''), of
  the absent \<open>wire\<close> package: the legacy transaction encoding, with little-endian
  integers and variable-length counts. The unsigned transaction of
  \<open>TestConstructionService\<close> is an instance of it.
\<close>

definition le_bytes :: "nat \<Rightarrow> 'a::len word \<Rightarrow> byte list" where
  "le_bytes n w = map (\<lambda>i. ucast (drop_bit (8 * i) w)) [0..<n]"

definition WriteVarInt :: "64 word \<Rightarrow> byte list" where
  "WriteVarInt v =
     (if v < 0xfd then [ucast v]
      else if v \<le> 0xffff then 0xfd # le_bytes 2 v
      else if v \<le> 0xffffffff then 0xfe # le_bytes 4 v
      else 0xff # le_bytes 8 v)"

definition WriteVarBytes :: "byte list \<Rightarrow> byte list" where
  "WriteVarBytes b = WriteVarInt (word_of_nat (length b)) @ b"

definition writeTxIn :: "TxIn \<Rightarrow> byte list" where
  "writeTxIn ti =
     Hash (PreviousOutPoint ti) @ le_bytes 4 (Index (PreviousOutPoint ti)) @
     WriteVarBytes (SignatureScript ti) @ le_bytes 4 (Sequence ti)"

definition writeTxOut :: "TxOut \<Rightarrow> byte list" where
  "writeTxOut txo = le_bytes 8 (Value txo) @ WriteVarBytes (PkScript txo)"

definition SerializeNoWitness :: "heap \<Rightarrow> MsgTx \<Rightarrow> byte list" where
  "SerializeNoWitness h tx =
     le_bytes 4 (Version tx) @
     WriteVarInt (word_of_nat (length (TxIn tx))) @
     concat (map (\<lambda>p. writeTxIn (txins h ! p)) (TxIn tx)) @
     WriteVarInt (word_of_nat (length (TxOut tx))) @
     concat (map (\<lambda>p. writeTxOut (txouts h ! p)) (TxOut tx)) @
     le_bytes 4 (LockTime tx)"

section \<open>The legacy signature hash (thoughtd/txscript/sighash.go)\<close>

type_synonym SigHashType = "32 word"

definition SigHashOld :: SigHashType where "SigHashOld = 0x0"
definition SigHashAll :: SigHashType where "SigHashAll = 0x1"
definition SigHashNone :: SigHashType where "SigHashNone = 0x2"
definition SigHashSingle :: SigHashType where "SigHashSingle = 0x3"
definition SigHashAnyOneCanPay :: SigHashType where "SigHashAnyOneCanPay = 0x80"
definition sigHashMask :: SigHashType where "sigHashMask = 0x1f"

text \<open>
  \<open>shallowCopyTx\<close> allocates one array of \<open>TxIn\<close> and one of \<open>TxOut\<close>, copies every
  structure of the transaction into them and returns a \<open>MsgTx\<close> value whose pointers
  are those of the copies. The new cells are appended to the store.
\<close>

definition shallowCopyTx :: "heap \<Rightarrow> nat \<Rightarrow> panic + heap \<times> MsgTx" where
  "shallowCopyTx h tx =
     (case deref (txs h) tx of
        Inl e \<Rightarrow> Inl e
      | Inr t \<Rightarrow>
     (case derefAll (txins h) (TxIn t) of
        Inl e \<Rightarrow> Inl e
      | Inr ins \<Rightarrow>
     (case derefAll (txouts h) (TxOut t) of
        Inl e \<Rightarrow> Inl e
      | Inr outs \<Rightarrow>
          Inr (h\<lparr>txins := txins h @ ins, txouts := txouts h @ outs\<rparr>,
               \<lparr>Version = Version t,
                TxIn = [length (txins h) ..< length (txins h) + length ins],
                TxOut = [length (txouts h) ..< length (txouts h) + length outs],
                LockTime = LockTime t\<rparr>))))"

text \<open>
  The body of \<open>calcSignatureHash\<close> from the removal of \<open>OP_CODESEPARATOR\<close> to the
  \<open>SigHashAnyOneCanPay\<close> step: it returns the store and \<open>txCopy\<close>, the transaction
  that is then serialised and hashed. \<open>idx\<close> is a Go \<open>int\<close>; a slice expression whose
  bounds are out of range panics.
\<close>

definition zeroOtherSequences :: "MsgTx \<Rightarrow> int \<Rightarrow> heap \<Rightarrow> heap" where
  "zeroOtherSequences txCopy idx h =
     h\<lparr>txins := forRange (\<lambda>i ti. if int i \<noteq> idx then ti\<lparr>Sequence := 0\<rparr> else ti)
                   (TxIn txCopy) 0 (txins h)\<rparr>"

definition sigHashTxCopy ::
  "heap \<Rightarrow> byte list \<Rightarrow> SigHashType \<Rightarrow> nat \<Rightarrow> int \<Rightarrow> panic + heap \<times> MsgTx"
where
  "sigHashTxCopy h sigScript hashType tx idx =
     (let sigScript' = removeOpcodeRaw sigScript OP_CODESEPARATOR in
      case shallowCopyTx h tx of
        Inl e \<Rightarrow> Inl e
      | Inr (h1, txCopy) \<Rightarrow>
      let h2 = h1\<lparr>txins :=
                   forRange (\<lambda>i ti. ti\<lparr>SignatureScript := (if int i = idx then sigScript' else [])\<rparr>)
                     (TxIn txCopy) 0 (txins h1)\<rparr>
      in
      case
        (if hashType AND sigHashMask = SigHashNone then
           Inr (zeroOtherSequences txCopy idx h2, txCopy\<lparr>TxOut := []\<rparr>)
         else if hashType AND sigHashMask = SigHashSingle then
           (if idx + 1 < 0 \<or> int (length (TxOut txCopy)) < idx + 1 then Inl SliceBoundsOutOfRange
            else
              let outs = take (nat (idx + 1)) (TxOut txCopy);
                  h3 = h2\<lparr>txouts :=
                             forRange (\<lambda>i txo. txo\<lparr>Value := - 1, PkScript := []\<rparr>)
                               (take (nat idx) outs) 0 (txouts h2)\<rparr>
              in Inr (zeroOtherSequences txCopy idx h3, txCopy\<lparr>TxOut := outs\<rparr>))
         else Inr (h2, txCopy))
      of
        Inl e \<Rightarrow> Inl e
      | Inr (h4, txCopy') \<Rightarrow>
          if hashType AND SigHashAnyOneCanPay \<noteq> 0 then
            (if idx < 0 \<or> int (length (TxIn txCopy')) < idx + 1 then Inl SliceBoundsOutOfRange
             else Inr (h4, txCopy'\<lparr>TxIn := [TxIn txCopy' ! nat idx]\<rparr>))
          else Inr (h4, txCopy'))"

text \<open>The 32-byte hash whose first byte is 1 and whose other bytes are 0.\<close>

definition hashOne :: "byte list" where
  "hashOne = 1 # replicate 31 0"

definition calcSignatureHash ::
  "heap \<Rightarrow> byte list \<Rightarrow> SigHashType \<Rightarrow> nat \<Rightarrow> int \<Rightarrow> panic + heap \<times> byte list"
where
  "calcSignatureHash h sigScript hashType tx idx =
     (case deref (txs h) tx of
        Inl e \<Rightarrow> Inl e
      | Inr t \<Rightarrow>
          if hashType AND sigHashMask = SigHashSingle \<and> int (length (TxOut t)) \<le> idx
          then Inr (h, hashOne)
          else
            case sigHashTxCopy h sigScript hashType tx idx of
              Inl e \<Rightarrow> Inl e
            | Inr (h', txCopy) \<Rightarrow>
                Inr (h', DoubleHashB (SerializeNoWitness h' txCopy @ le_bytes 4 hashType)))"

definition CalcSignatureHash ::
  "heap \<Rightarrow> byte list \<Rightarrow> SigHashType \<Rightarrow> nat \<Rightarrow> int \<Rightarrow> panic + heap \<times> (script_error + byte list)"
where
  "CalcSignatureHash h s hashType tx idx =
     (case checkScriptParses s of
        Some e \<Rightarrow> Inr (h, Inl e)
      | None \<Rightarrow>
          (case calcSignatureHash h s hashType tx idx of
             Inl p \<Rightarrow> Inl p
           | Inr (h', r) \<Rightarrow> Inr (h', Inr r)))"

section \<open>The vocabulary of the statements\<close>

subsection \<open>Instructions of a script\<close>

text \<open>
  The bytes of one instruction: the opcode, then for \<open>OP_PUSHDATA1/2/4\<close> the length of
  the data in 1, 2 or 4 little-endian bytes, then the data. An opcode \<open>1..75\<close> carries
  that many bytes of data, \<open>OP_PUSHDATA1/2/4\<close> as many as the length field can say (less
  than \<open>2^31\<close> for \<open>OP_PUSHDATA4\<close>), every other opcode none.
\<close>

fun leBytes :: "nat \<Rightarrow> nat \<Rightarrow> byte list" where
  "leBytes 0 n = []"
| "leBytes (Suc k) n = of_nat (n mod 256) # leBytes k (n div 256)"

definition instruction :: "byte \<Rightarrow> byte list \<Rightarrow> byte list" where
  "instruction opc d =
     (if opc = OP_PUSHDATA1 then opc # leBytes 1 (length d) @ d
      else if opc = OP_PUSHDATA2 then opc # leBytes 2 (length d) @ d
      else if opc = OP_PUSHDATA4 then opc # leBytes 4 (length d) @ d
      else opc # d)"

definition wellFormedInstruction :: "byte \<Rightarrow> byte list \<Rightarrow> bool" where
  "wellFormedInstruction opc d =
     (if 1 \<le> opc \<and> opc \<le> OP_DATA_75 then length d = unat opc
      else if opc = OP_PUSHDATA1 then length d < 256
      else if opc = OP_PUSHDATA2 then length d < 65536
      else if opc = OP_PUSHDATA4 then length d < 2147483648
      else d = [])"

definition instructions :: "(byte \<times> byte list) list \<Rightarrow> byte list" where
  "instructions ks = concat (map (\<lambda>(opc, d). instruction opc d) ks)"

text \<open>
  What the multisig template counts as a public key: any well-formed instruction whose
  opcode is not a small integer.
\<close>

definition isKeyInstruction :: "byte \<times> byte list \<Rightarrow> bool" where
  "isKeyInstruction k = (wellFormedInstruction (fst k) (snd k) \<and> \<not> isSmallInt (fst k))"

subsection \<open>Transactions in the store\<close>

text \<open>
  A transaction pointer is well formed when it and the pointers of its inputs and
  outputs are pointers to cells.
\<close>

definition wellFormedTx :: "heap \<Rightarrow> nat \<Rightarrow> bool" where
  "wellFormedTx h tx =
     (tx < length (txs h) \<and> list_all (\<lambda>p. p < length (txins h)) (TxIn (txs h ! tx)) \<and>
      list_all (\<lambda>p. p < length (txouts h)) (TxOut (txs h ! tx)))"

text \<open>Every cell of \<open>h\<close> is a cell of \<open>h'\<close> with the same content.\<close>

definition preserved :: "heap \<Rightarrow> heap \<Rightarrow> bool" where
  "preserved h h' =
     (txs h' = txs h \<and> take (length (txins h)) (txins h') = txins h \<and>
      take (length (txouts h)) (txouts h') = txouts h)"

text \<open>
  All the fields of a transaction, read through its pointers: version, inputs (outpoint,
  signature script, witness, sequence), outputs (value, script) and lock time.
\<close>

definition readTx :: "heap \<Rightarrow> nat \<Rightarrow> panic + 32 word \<times> TxIn list \<times> TxOut list \<times> 32 word" where
  "readTx h tx =
     (case deref (txs h) tx of
        Inl e \<Rightarrow> Inl e
      | Inr t \<Rightarrow>
     (case derefAll (txins h) (TxIn t) of
        Inl e \<Rightarrow> Inl e
      | Inr ins \<Rightarrow>
     (case derefAll (txouts h) (TxOut t) of
        Inl e \<Rightarrow> Inl e
      | Inr outs \<Rightarrow> Inr (Version t, ins, outs, LockTime t))))"

subsection \<open>Concrete data\<close>

text \<open>A transaction with two inputs and one output, at address 0 of a store.\<close>

definition exampleTxIn :: "32 word \<Rightarrow> TxIn" where
  "exampleTxIn n =
     \<lparr>PreviousOutPoint = \<lparr>Hash = replicate 32 0x11, Index = n\<rparr>, SignatureScript = [0x51],
      Witness = [], Sequence = 0xfffffffe\<rparr>"

definition exampleHeap :: heap where
  "exampleHeap =
     \<lparr>txs = [\<lparr>Version = 2, TxIn = [0, 1], TxOut = [0], LockTime = 0\<rparr>],
      txins = [exampleTxIn 0, exampleTxIn 1],
      txouts = [\<lparr>Value = 38000, PkScript = [OP_RETURN]\<rparr>]\<rparr>"

text \<open>
  The script \<open>76a914b19e5c5433afbf7aca8a73949a48fa6b41a1089d88ac\<close> of the spec's scenario
  and of \<open>TestConstructionService\<close>, and the 20-byte hash it pays to.
\<close>

definition testPubKeyHash :: "byte list" where
  "testPubKeyHash = [0xb1, 0x9e, 0x5c, 0x54, 0x33, 0xaf, 0xbf, 0x7a, 0xca, 0x8a, 0x73, 0x94, 0x9a, 0x48, 0xfa, 0x6b, 0x41, 0xa1, 0x08, 0x9d]"

definition testPkScript :: "byte list" where
  "testPkScript = [0x76, 0xa9, 0x14] @ testPubKeyHash @ [0x88, 0xac]"

text \<open>The 33 bytes of a compressed public key (the key of the test's Derive step).\<close>

definition testPubKey :: "byte list" where
  "testPubKey = 
     [0x03, 0x9e, 0xc9, 0xa2, 0x26, 0x5b, 0x55, 0x2b, 0x81, 0xb0, 0x55, 0x2e, 0x6e, 0x0d, 0x58, 0x92, 0x5c, 0xc3, 0x8c, 0x12, 0x64, 0xab, 0x98, 0x28, 0xe8, 0xc5, 0xf0, 0x71, 0xb7, 0xdc, 0x3d, 0x26, 0x2d]"

text \<open>
  The unsigned transaction of \<open>TestConstructionService\<close>, at address 0 of a store: one
  input spending output 0 of \<open>5d7ffb8c...9ce1da7f\<close> (the hash is stored byte-reversed),
  one output of 38000 to \<open>testPkScript\<close>. \<open>testSigningPayload\<close> is the signing payload
  that the test expects from \<open>ConstructionPayloads\<close> for this transaction.
\<close>

definition testOutPointHash :: "byte list" where
  "testOutPointHash = [0x7f, 0xda, 0xe1, 0x9c, 0x46, 0x8a, 0xbe, 0x1e, 0x39, 0xcc, 0x8b, 0xd5, 0x2f, 0xb6, 0xd1, 0x0a, 0x57, 0x49, 0x2f, 0x5b, 0x6d, 0xd2, 0x24, 0x95, 0x7a, 0xd8, 0x55, 0xf5, 0x8c, 0xfb, 0x7f, 0x5d]"

definition testHeap :: heap where
  "testHeap =
     \<lparr>txs = [\<lparr>Version = 2, TxIn = [0], TxOut = [0], LockTime = 0\<rparr>],
      txins = [\<lparr>PreviousOutPoint = \<lparr>Hash = testOutPointHash, Index = 0\<rparr>,
                SignatureScript = [], Witness = [], Sequence = 0xffffffff\<rparr>],
      txouts = [\<lparr>Value = 38000, PkScript = testPkScript\<rparr>]\<rparr>"

definition testUnsignedTx :: "byte list" where
  "testUnsignedTx =
     [2, 0, 0, 0, 1] @ testOutPointHash @ [0, 0, 0, 0, 0] @
     [0xff, 0xff, 0xff, 0xff, 1, 0x70, 0x94, 0, 0, 0, 0, 0, 0, 25] @ testPkScript @
     [0, 0, 0, 0]"

definition testSigningPayload :: "byte list" where
  "testSigningPayload = [0xb6, 0xaa, 0x74, 0x7c, 0x4d, 0xbe, 0x4e, 0x03, 0x97, 0xda, 0x14, 0x2c, 0x28, 0xaa, 0xbd, 0x32, 0x6e, 0x08, 0xce, 0x9b, 0x0c, 0xe8, 0xfd, 0x5a, 0xfc, 0x3c, 0x58, 0x40, 0xf3, 0xf4, 0x1b, 0x05]"

text \<open>
  The store after \<open>calcSignatureHash\<close> has run on this transaction with \<open>testPkScript\<close>,
  \<open>SigHashAll\<close> and index 0, the copy that it serialises, and the bytes that it hashes.
\<close>

definition testTxCopyHeap :: heap where
  "testTxCopyHeap =
     \<lparr>txs = txs testHeap,
      txins = txins testHeap @
        [\<lparr>PreviousOutPoint = \<lparr>Hash = testOutPointHash, Index = 0\<rparr>,
          SignatureScript = testPkScript, Witness = [], Sequence = 0xffffffff\<rparr>],
      txouts = txouts testHeap @ [\<lparr>Value = 38000, PkScript = testPkScript\<rparr>]\<rparr>"

definition testTxCopy :: MsgTx where
  "testTxCopy = \<lparr>Version = 2, TxIn = [1], TxOut = [1], LockTime = 0\<rparr>"

definition testPreimage :: "byte list" where
  "testPreimage =
     [2, 0, 0, 0, 1] @ testOutPointHash @ [0, 0, 0, 0, 25] @ testPkScript @
     [0xff, 0xff, 0xff, 0xff, 1, 0x70, 0x94, 0, 0, 0, 0, 0, 0, 25] @ testPkScript @
     [0, 0, 0, 0, 1, 0, 0, 0]"
section \<open>Lemmas about the tokenizer\<close>

lemma leUint_Cons [simp]: "leUint (b # bs) = uint b + 256 * leUint bs"
  by (simp add: leUint_def)

lemma leUint_Nil [simp]: "leUint [] = 0"
  by (simp add: leUint_def)

lemma length_leBytes [simp]: "length (leBytes k n) = k"
  by (induction k arbitrary: n) auto

lemma uint_byte_of_nat_mod: "uint (of_nat (n mod 256) :: byte) = int (n mod 256)"
  by (simp add: uint_nat unat_of_nat)

lemma leUint_leBytes: "n < 256 ^ k \<Longrightarrow> leUint (leBytes k n) = int n"
proof (induction k arbitrary: n)
  case 0
  then show ?case by simp
next
  case (Suc k)
  then have "n div 256 < 256 ^ k"
    by (simp add: less_mult_imp_div_less mult.commute)
  then have "leUint (leBytes k (n div 256)) = int (n div 256)" by (rule Suc.IH)
  then show ?case
    by (simp add: uint_byte_of_nat_mod zdiv_int zmod_int)
qed

lemma leUint_bounds: "0 \<le> leUint bs \<and> leUint bs < 256 ^ length bs"
proof (induction bs)
  case Nil
  then show ?case by simp
next
  case (Cons b bs)
  have "uint b < 256" using uint_bounded [of b] by simp
  moreover have "0 \<le> uint b" by simp
  ultimately show ?case using Cons by (simp) 
qed

lemma leBytes_leUint: "leBytes (length bs) (nat (leUint bs)) = bs"
proof (induction bs)
  case Nil
  then show ?case by simp
next
  case (Cons b bs)
  have b: "0 \<le> uint b" "uint b < 256" using uint_bounded [of b] by simp_all
  have nn: "0 \<le> leUint bs" using leUint_bounds by simp
  have m: "nat (uint b + 256 * leUint bs) mod 256 = unat b"
    using b nn unsigned_less [of b, where ?'a = nat] by (simp add: nat_mod_distrib nat_add_distrib nat_mult_distrib mod_add_right_eq)
  have d: "nat (uint b + 256 * leUint bs) div 256 = nat (leUint bs)"
    using b nn unsigned_less [of b, where ?'a = nat] by (simp add: nat_div_distrib nat_add_distrib nat_mult_distrib)
  show ?case using Cons by (simp add: m d)
qed


lemma drop_eq_Cons_nth:
  assumes "drop n xs = y # ys"
  shows "n < length xs \<and> xs ! n = y \<and> drop (Suc n) xs = ys"
proof -
  have n: "n < length xs" using assms by (metis drop_all linorder_not_less list.distinct(1))
  then have "drop n xs = xs ! n # drop (Suc n) xs" by (simp add: Cons_nth_drop_Suc)
  with assms n show ?thesis by simp
qed

lemma opcodeLength_data:
  assumes "1 \<le> b" "b \<le> OP_DATA_75"
  shows "opcodeLength b = int (Suc (unat b))" and "0 < unat b"
proof -
  show "opcodeLength b = int (Suc (unat b))" using assms by (simp add: opcodeLength_def)
  from assms(1) have "unat (1 :: byte) \<le> unat b" by (simp only: word_le_nat_alt)
  then show "0 < unat b" by simp
qed

lemma opcodeLength_other:
  "\<not> (1 \<le> b \<and> b \<le> OP_DATA_75) \<Longrightarrow> b \<noteq> OP_PUSHDATA1 \<Longrightarrow> b \<noteq> OP_PUSHDATA2 \<Longrightarrow>
   b \<noteq> OP_PUSHDATA4 \<Longrightarrow> opcodeLength b = 1"
  by (auto simp: opcodeLength_def)

lemma opcodeLength_pushdata [simp]:
  "opcodeLength OP_PUSHDATA1 = - 1" "opcodeLength OP_PUSHDATA2 = - 2" "opcodeLength OP_PUSHDATA4 = - 4"
  by (simp_all add: opcodeLength_def OP_PUSHDATA1_def OP_PUSHDATA2_def OP_PUSHDATA4_def OP_DATA_75_def)

lemma Next_len1:
  "\<not> Done t \<Longrightarrow> opcodeLength (script t ! offset t) = 1 \<Longrightarrow>
   Next t = (True, t\<lparr>offset := offset t + 1, op := script t ! offset t, data := []\<rparr>)"
  by (simp add: Next_def Let_def)

lemma Next_fixed:
  assumes "\<not> Done t" "opcodeLength (script t ! offset t) = int (Suc n)" "0 < n"
  shows "Next t =
    (if length (script t) - offset t < Suc n then (False, t\<lparr>err := True\<rparr>)
     else (True, t\<lparr>offset := offset t + Suc n, op := script t ! offset t,
                   data := take n (drop (Suc (offset t)) (script t))\<rparr>))"
proof -
  have n: "nat (1 + int n) = Suc n" by simp
  have o: "offset t < length (script t)" using assms(1) by (simp add: Done_def)
  then have c: "int (length (script t)) - int (offset t) < 1 + int n \<longleftrightarrow>
      length (script t) - offset t < Suc n" by auto
  show ?thesis using assms n c by (simp add: Next_def Let_def)
qed

lemma Next_var:
  assumes "\<not> Done t" "opcodeLength (script t ! offset t) = - int k" "0 < k"
  shows "Next t =
    (if length (script t) - Suc (offset t) < k then (False, t\<lparr>err := True\<rparr>)
     else if int (length (script t) - Suc (offset t) - k)
               < leUint (take k (drop (Suc (offset t)) (script t))) \<or>
             2147483648 \<le> leUint (take k (drop (Suc (offset t)) (script t)))
       then (False, t\<lparr>err := True\<rparr>)
     else (True, t\<lparr>offset := offset t + 1 + k + nat (leUint (take k (drop (Suc (offset t)) (script t)))),
                   op := script t ! offset t,
                   data := take (nat (leUint (take k (drop (Suc (offset t)) (script t)))))
                             (drop (k + Suc (offset t)) (script t))\<rparr>))"
proof -
  have o: "offset t < length (script t)" using assms(1) by (simp add: Done_def)
  have c: "int (length (script t)) - (1 + int (offset t)) < int k \<longleftrightarrow>
      length (script t) - Suc (offset t) < k" using o by auto
  show ?thesis using assms c by (simp add: Next_def Let_def)
qed

lemma Next_pushdata:
  assumes ne: "\<not> err t"
    and dr: "drop (offset t) (script t) = opc # leBytes k (length d) @ d @ rest"
    and len: "opcodeLength opc = - int k" and k: "0 < k"
    and bound: "length d < 256 ^ k" "length d < 2147483648"
  shows "Next t = (True, t\<lparr>offset := offset t + 1 + k + length d, op := opc, data := d\<rparr>)"
proof -
  from drop_eq_Cons_nth [OF dr]
  have o: "offset t < length (script t)" and h: "script t ! offset t = opc"
    and r: "drop (Suc (offset t)) (script t) = leBytes k (length d) @ d @ rest" by simp_all
  have nd: "\<not> Done t" using ne o by (simp add: Done_def)
  have dl: "leUint (take k (leBytes k (length d) @ d @ rest)) = int (length d)"
    by (simp add: leUint_leBytes bound)
  have l: "length (script t) - Suc (offset t) = k + length d + length rest"
    using arg_cong [OF r, of length] by simp
  have r': "drop (k + Suc (offset t)) (script t) = d @ rest"
    using arg_cong [OF r, of "drop k"] by (simp add: add.commute)
  show ?thesis
    using Next_var [OF nd, of k] h len k dl l r r' bound by simp
qed

lemma Next_instruction:
  assumes ne: "\<not> err t"
    and dr: "drop (offset t) (script t) = instruction opc d @ rest"
    and wf: "wellFormedInstruction opc d"
  shows "Next t = (True, t\<lparr>offset := offset t + length (instruction opc d), op := opc, data := d\<rparr>)"
proof -
  consider (data) "1 \<le> opc \<and> opc \<le> OP_DATA_75"
    | (p1) "opc = OP_PUSHDATA1" | (p2) "opc = OP_PUSHDATA2" | (p4) "opc = OP_PUSHDATA4"
    | (other) "\<not> (1 \<le> opc \<and> opc \<le> OP_DATA_75)" "opc \<noteq> OP_PUSHDATA1" "opc \<noteq> OP_PUSHDATA2"
        "opc \<noteq> OP_PUSHDATA4"
    by blast
  then show ?thesis
  proof cases
    case data
    then have np: "opc \<noteq> OP_PUSHDATA1" "opc \<noteq> OP_PUSHDATA2" "opc \<noteq> OP_PUSHDATA4"
      by (auto simp: OP_PUSHDATA1_def OP_PUSHDATA2_def OP_PUSHDATA4_def OP_DATA_75_def)
    from data wf have ld: "length d = unat opc" by (simp add: wellFormedInstruction_def)
    from np have i: "instruction opc d = opc # d" by (simp add: instruction_def)
    from drop_eq_Cons_nth [OF dr [unfolded i, simplified]]
    have o: "offset t < length (script t)" and h: "script t ! offset t = opc"
      and r: "drop (Suc (offset t)) (script t) = d @ rest" by simp_all
    have nd: "\<not> Done t" using ne o by (simp add: Done_def)
    have l: "length (script t) - Suc (offset t) = length d + length rest"
      using arg_cong [OF r, of length] by simp
    show ?thesis
      using Next_fixed [OF nd, of "unat opc"] opcodeLength_data [of opc] data h ld r l i o
      by simp
  next
    case p1
    then have i: "instruction opc d = opc # leBytes 1 (length d) @ d" by (simp add: instruction_def)
    from p1 wf have b: "length d < 256"
      by (simp add: wellFormedInstruction_def OP_PUSHDATA1_def OP_DATA_75_def)
    show ?thesis
      using Next_pushdata [OF ne, of opc 1 d rest] dr i b p1 by simp
  next
    case p2
    then have i: "instruction opc d = opc # leBytes 2 (length d) @ d"
      by (simp add: instruction_def OP_PUSHDATA1_def OP_PUSHDATA2_def)
    from p2 wf have b: "length d < 65536"
      by (simp add: wellFormedInstruction_def OP_PUSHDATA1_def OP_PUSHDATA2_def OP_DATA_75_def)
    show ?thesis
      using Next_pushdata [OF ne, of opc 2 d rest] dr i b p2 by simp
  next
    case p4
    then have i: "instruction opc d = opc # leBytes 4 (length d) @ d"
      by (simp add: instruction_def OP_PUSHDATA1_def OP_PUSHDATA2_def OP_PUSHDATA4_def)
    from p4 wf have b: "length d < 2147483648"
      by (simp add: wellFormedInstruction_def OP_PUSHDATA1_def OP_PUSHDATA2_def OP_PUSHDATA4_def OP_DATA_75_def)
    show ?thesis
      using Next_pushdata [OF ne, of opc 4 d rest] dr i b p4 by simp
  next
    case other
    then have i: "instruction opc d = [opc]" and d: "d = []"
      using wf by (simp_all add: instruction_def wellFormedInstruction_def)
    from drop_eq_Cons_nth [OF dr [unfolded i, simplified]]
    have o: "offset t < length (script t)" and h: "script t ! offset t = opc" by simp_all
    have nd: "\<not> Done t" using ne o by (simp add: Done_def)
    show ?thesis
      using Next_len1 [OF nd] h opcodeLength_other [OF other] i d
      by simp
  qed
qed


lemma opcodeLength_cases:
  obtains (data) "1 \<le> b" "b \<le> OP_DATA_75"
  | (p1) "b = OP_PUSHDATA1" | (p2) "b = OP_PUSHDATA2" | (p4) "b = OP_PUSHDATA4"
  | (other) "\<not> (1 \<le> b \<and> b \<le> OP_DATA_75)" "b \<noteq> OP_PUSHDATA1" "b \<noteq> OP_PUSHDATA2" "b \<noteq> OP_PUSHDATA4"
  by blast

lemma Next_var_TrueD:
  assumes nd: "\<not> Done t" and len: "opcodeLength (script t ! offset t) = - int k" and k: "0 < k"
    and nx: "Next t = (True, t')"
  shows "\<exists>d. length d < 256 ^ k \<and> length d < 2147483648 \<and>
           drop (offset t) (script t) = script t ! offset t # leBytes k (length d) @ d @ drop (offset t') (script t) \<and>
           t' = t\<lparr>offset := offset t + 1 + k + length d, op := script t ! offset t, data := d\<rparr>"
proof -
  define A where "A = drop (Suc (offset t)) (script t)"
  define dl where "dl = leUint (take k A)"
  have o: "offset t < length (script t)" using nd by (simp add: Done_def)
  have lA: "length A = length (script t) - Suc (offset t)" by (simp add: A_def)
  from nx Next_var [OF nd len k]
  have c1: "\<not> length A < k" and c2: "\<not> int (length A - k) < dl" and c3: "\<not> 2147483648 \<le> dl"
    and t': "t' = t\<lparr>offset := offset t + 1 + k + nat dl, op := script t ! offset t,
                     data := take (nat dl) (drop (k + Suc (offset t)) (script t))\<rparr>"
    by (auto simp: A_def dl_def split: if_splits)
  define d where "d = take (nat dl) (drop k A)"
  have lk: "length (take k A) = k" using c1 by simp
  have dl0: "0 \<le> dl" "dl < 256 ^ k"
    using leUint_bounds [of "take k A"] by (simp_all only: dl_def lk)
  have ld: "length d = nat dl" using c2 dl0 by (simp add: d_def)
  have lb: "leBytes k (length d) = take k A"
    using leBytes_leUint [of "take k A"] by (simp only: ld dl_def lk)
  have "take (nat dl) (drop k A) @ drop (nat dl) (drop k A) = drop k A"
    by (rule append_take_drop_id)
  then have e1: "drop k A = d @ drop (nat dl + k) A"
    unfolding d_def drop_drop by (rule sym)
  have "A = take k A @ drop k A" by (rule append_take_drop_id [symmetric])
  also have "\<dots> = leBytes k (length d) @ drop k A" by (simp only: lb)
  also have "\<dots> = leBytes k (length d) @ d @ drop (nat dl + k) A" by (subst e1) (rule refl)
  finally have A: "A = leBytes k (length d) @ d @ drop (nat dl + k) A" .
  have dr: "drop (offset t) (script t) = script t ! offset t # A"
    using o by (simp add: A_def Cons_nth_drop_Suc)
  have off: "drop (nat dl + k) A = drop (offset t') (script t)"
    by (simp add: A_def t' add.commute add.left_commute)
  have "length d < 256 ^ k" using dl0 ld
    by (metis nat_less_iff of_nat_numeral of_nat_power)
  moreover have "length d < 2147483648" using c3 ld dl0 by simp
  moreover have "drop (offset t) (script t) =
      script t ! offset t # leBytes k (length d) @ d @ drop (offset t') (script t)"
    using dr A off by simp
  moreover have "t' = t\<lparr>offset := offset t + 1 + k + length d, op := script t ! offset t, data := d\<rparr>"
    by (subst ld) (simp add: t' d_def A_def add.commute)
  ultimately show ?thesis by blast
qed

lemma Next_TrueD:
  assumes nx: "Next t = (True, t')"
  shows "\<not> err t \<and> wellFormedInstruction (op t') (data t') \<and>
         drop (offset t) (script t) = instruction (op t') (data t') @ drop (offset t') (script t) \<and>
         t' = t\<lparr>offset := offset t + length (instruction (op t') (data t')), op := op t', data := data t'\<rparr>"
proof -
  have nd: "\<not> Done t" using nx by (auto simp: Next_def)
  then have ne: "\<not> err t" and o: "offset t < length (script t)" by (simp_all add: Done_def)
  define b where "b = script t ! offset t"
  have dr: "drop (offset t) (script t) = b # drop (Suc (offset t)) (script t)"
    using o by (simp add: b_def Cons_nth_drop_Suc)
  show ?thesis
  proof (cases b rule: opcodeLength_cases)
    case data
    then have np: "b \<noteq> OP_PUSHDATA1" "b \<noteq> OP_PUSHDATA2" "b \<noteq> OP_PUSHDATA4"
      by (auto simp: OP_PUSHDATA1_def OP_PUSHDATA2_def OP_PUSHDATA4_def OP_DATA_75_def)
    from nx Next_fixed [OF nd, of "unat b"] opcodeLength_data [OF data]
    have c: "\<not> length (script t) - offset t < Suc (unat b)"
      and t': "t' = t\<lparr>offset := offset t + Suc (unat b), op := b,
                       data := take (unat b) (drop (Suc (offset t)) (script t))\<rparr>"
      by (auto simp: b_def split: if_splits)
    have ld: "length (data t') = unat b" using c by (simp add: t')
    have i: "instruction (op t') (data t') = b # data t'" using np by (simp add: instruction_def t')
    have "drop (Suc (offset t)) (script t) =
        take (unat b) (drop (Suc (offset t)) (script t)) @ drop (unat b) (drop (Suc (offset t)) (script t))"
      by (simp only: append_take_drop_id)
    then have "drop (offset t) (script t) = b # data t' @ drop (offset t') (script t)"
      using dr by (simp add: t' add.commute)
    then show ?thesis
      using ne data ld i t' by (simp add: wellFormedInstruction_def)
  next
    case p1
    from Next_var_TrueD [OF nd _ _ nx, of 1] p1
    obtain d where d: "length d < 256" "length d < 2147483648"
      "drop (offset t) (script t) = b # leBytes 1 (length d) @ d @ drop (offset t') (script t)"
      "t' = t\<lparr>offset := offset t + 1 + 1 + length d, op := b, data := d\<rparr>"
      by (auto simp: b_def)
    have i: "instruction b d = b # leBytes 1 (length d) @ d" using p1 by (simp add: instruction_def)
    have w: "wellFormedInstruction b d" using p1 d(1)
      by (simp add: wellFormedInstruction_def OP_PUSHDATA1_def OP_DATA_75_def)
    show ?thesis using ne d i w by simp
  next
    case p2
    from Next_var_TrueD [OF nd _ _ nx, of 2] p2
    obtain d where d: "length d < 65536" "length d < 2147483648"
      "drop (offset t) (script t) = b # leBytes 2 (length d) @ d @ drop (offset t') (script t)"
      "t' = t\<lparr>offset := offset t + 1 + 2 + length d, op := b, data := d\<rparr>"
      by (auto simp: b_def)
    have i: "instruction b d = b # leBytes 2 (length d) @ d" using p2
      by (simp add: instruction_def OP_PUSHDATA1_def OP_PUSHDATA2_def)
    have w: "wellFormedInstruction b d" using p2 d(1)
      by (simp add: wellFormedInstruction_def OP_PUSHDATA1_def OP_PUSHDATA2_def OP_DATA_75_def)
    show ?thesis using ne d i w by simp
  next
    case p4
    from Next_var_TrueD [OF nd _ _ nx, of 4] p4
    obtain d where d: "length d < 2147483648"
      "drop (offset t) (script t) = b # leBytes 4 (length d) @ d @ drop (offset t') (script t)"
      "t' = t\<lparr>offset := offset t + 1 + 4 + length d, op := b, data := d\<rparr>"
      by (auto simp: b_def)
    have i: "instruction b d = b # leBytes 4 (length d) @ d" using p4
      by (simp add: instruction_def OP_PUSHDATA1_def OP_PUSHDATA2_def OP_PUSHDATA4_def)
    have w: "wellFormedInstruction b d" using p4 d(1)
      by (simp add: wellFormedInstruction_def OP_PUSHDATA1_def OP_PUSHDATA2_def OP_PUSHDATA4_def OP_DATA_75_def)
    show ?thesis using ne d i w by simp
  next
    case other
    from nx Next_len1 [OF nd] opcodeLength_other [OF other]
    have t': "t' = t\<lparr>offset := offset t + 1, op := b, data := []\<rparr>" by (simp add: b_def)
    have i: "instruction (op t') (data t') = [b]" using other by (simp add: instruction_def t')
    have w: "wellFormedInstruction (op t') (data t')" using other by (auto simp: wellFormedInstruction_def t')
    show ?thesis using ne dr i w t' by simp
  qed
qed

lemma instructions_simps [simp]:
  "instructions [] = []"
  "instructions ((opc, d) # ks) = instruction opc d @ instructions ks"
  by (simp_all add: instructions_def)

lemma instruction_nonempty [simp]: "instruction opc d \<noteq> []"
  by (simp add: instruction_def)

lemma smallInt_instruction:
  assumes "isSmallInt b"
  shows "wellFormedInstruction b d \<longleftrightarrow> d = []" and "instruction b [] = [b]"
proof -
  have u: "unat b = 0 \<or> (81 \<le> unat b \<and> unat b \<le> 96)"
    using assms by (auto simp: isSmallInt_def OP_0_def OP_1_def OP_16_def word_le_nat_alt)
  then have n: "\<not> (1 \<le> b \<and> b \<le> OP_DATA_75)" "b \<noteq> OP_PUSHDATA1" "b \<noteq> OP_PUSHDATA2" "b \<noteq> OP_PUSHDATA4"
    by (auto simp: OP_DATA_75_def OP_PUSHDATA1_def OP_PUSHDATA2_def OP_PUSHDATA4_def word_le_nat_alt)
  show "wellFormedInstruction b d \<longleftrightarrow> d = []" using n by (auto simp: wellFormedInstruction_def)
  show "instruction b [] = [b]" using n by (simp add: instruction_def)
qed

lemma Next_FalseD: "Next t = (False, t') \<Longrightarrow> Done t'"
  by (auto simp: Next_def Done_def Let_def split: if_splits)

lemma drop_append_eq:
  assumes "drop a xs = ys @ zs"
  shows "drop (a + length ys) xs = zs"
proof -
  have "drop (length ys) (drop a xs) = zs" using assms by simp
  then show ?thesis by (simp add: add.commute)
qed

lemma multisigKeysLoop_forward:
  assumes "\<not> err t"
    and "drop (offset t) (script t) = instructions ks @ nb # rest"
    and "list_all isKeyInstruction ks" and "isSmallInt nb"
  shows "\<exists>t2 pks'. multisigKeysLoop t e n pks = (t2, n + int (length ks), pks') \<and> \<not> err t2 \<and>
           script t2 = script t \<and> op t2 = nb \<and> offset t2 = offset t + length (instructions ks) + 1"
  using assms
proof (induction ks arbitrary: t n pks)
  case Nil
  from Nil.prems(2) have dr: "drop (offset t) (script t) = instruction nb [] @ rest"
    using smallInt_instruction(2) [OF \<open>isSmallInt nb\<close>] by simp
  have wf: "wellFormedInstruction nb []" using smallInt_instruction(1) [OF \<open>isSmallInt nb\<close>] by simp
  from Next_instruction [OF Nil.prems(1) dr wf] smallInt_instruction(2) [OF \<open>isSmallInt nb\<close>]
  have nx: "Next t = (True, t\<lparr>offset := offset t + 1, op := nb, data := []\<rparr>)" by simp
  show ?case
    using Nil.prems(1,4) by (subst multisigKeysLoop.simps) (simp add: nx)
next
  case (Cons k ks)
  obtain opc d where k: "k = (opc, d)" by (cases k)
  from Cons.prems(3) k have "isKeyInstruction (opc, d)" and rest_ok: "list_all isKeyInstruction ks"
    by simp_all
  then have wf: "wellFormedInstruction opc d" and ns: "\<not> isSmallInt opc"
    by (simp_all add: isKeyInstruction_def)
  from Cons.prems(2) k
  have dr: "drop (offset t) (script t) = instruction opc d @ (instructions ks @ nb # rest)" by simp
  define t1 where "t1 = t\<lparr>offset := offset t + length (instruction opc d), op := opc, data := d\<rparr>"
  from Next_instruction [OF Cons.prems(1) dr wf] have nx: "Next t = (True, t1)" by (simp add: t1_def)
  have e1: "\<not> err t1" using Cons.prems(1) by (simp add: t1_def)
  have d1: "drop (offset t1) (script t1) = instructions ks @ nb # rest"
    using drop_append_eq [OF dr] by (simp add: t1_def)
  have step: "multisigKeysLoop t e n pks =
      multisigKeysLoop t1 e (n + 1)
        (if \<not> isStrictPubKeyEncoding d then pks else if e then pks @ [d] else pks)"
    using ns by (subst multisigKeysLoop.simps) (simp add: nx t1_def)
  from Cons.IH [OF e1 d1 rest_ok Cons.prems(4), of "n + 1"
      "if \<not> isStrictPubKeyEncoding d then pks else if e then pks @ [d] else pks"]
  show ?case
    unfolding step by (auto simp: t1_def k)
qed

lemma multisigKeysLoop_backward:
  assumes "multisigKeysLoop t e n pks = (t2, n2, pks2)" and "\<not> Done t2"
  shows "\<exists>ks. drop (offset t) (script t) = instructions ks @ op t2 # drop (offset t2) (script t) \<and>
           list_all isKeyInstruction ks \<and> isSmallInt (op t2) \<and> n2 = n + int (length ks) \<and>
           script t2 = script t \<and> \<not> err t"
  using assms
proof (induction t e n pks rule: multisigKeysLoop.induct)
  case (1 t e n pks)
  obtain ok t' where nx: "Next t = (ok, t')" by (cases "Next t")
  show ?case
  proof (cases ok)
    case False
    with nx "1.prems" have "t2 = t'" by (subst (asm) multisigKeysLoop.simps) simp
    with Next_FalseD [of t t'] nx False "1.prems"(2) show ?thesis by simp
  next
    case True
    from nx True have nxT: "Next t = (True, t')" by simp
    note D = Next_TrueD [OF nxT]
    from D have ne: "\<not> err t" and wf: "wellFormedInstruction (op t') (data t')"
      and dr: "drop (offset t) (script t) = instruction (op t') (data t') @ drop (offset t') (script t)"
      and t'eq: "t' = t\<lparr>offset := offset t + length (instruction (op t') (data t')), op := op t',
                             data := data t'\<rparr>"
      by simp_all
    have sc: "script t' = script t" by (subst t'eq) simp
    show ?thesis
    proof (cases "isSmallInt (op t')")
      case si: True
      with nx True "1.prems" have eq: "t2 = t'" "n2 = n"
        by (subst (asm) multisigKeysLoop.simps, simp)+
      from wf si have "data t' = []" using smallInt_instruction(1) by blast
      then have "instruction (op t') (data t') = [op t']"
        using smallInt_instruction(2) [OF si] by simp
      with dr have "drop (offset t) (script t) = instructions [] @ op t2 # drop (offset t2) (script t)"
        by (simp add: eq)
      then show ?thesis using si ne sc eq by (intro exI [of _ "[]"]) simp
    next
      case nsi: False
      define pks' where
        "pks' = (if \<not> isStrictPubKeyEncoding (data t') then pks else if e then pks @ [data t'] else pks)"
      from nx True nsi "1.prems"(1)
      have rec: "multisigKeysLoop t' e (n + 1) pks' = (t2, n2, pks2)"
        by (subst (asm) multisigKeysLoop.simps) (simp add: pks'_def)
      from nx True have nx': "(True, t') = Next t" by simp
      from "1.IH" [OF nx' refl nsi rec [unfolded pks'_def] "1.prems"(2)]
      have "\<exists>ks. drop (offset t') (script t') = instructions ks @ op t2 # drop (offset t2) (script t') \<and>
           list_all isKeyInstruction ks \<and> isSmallInt (op t2) \<and> n2 = n + 1 + int (length ks) \<and>
           script t2 = script t' \<and> \<not> err t'" .
      then obtain ks where ks: "drop (offset t') (script t') = instructions ks @ op t2 # drop (offset t2) (script t')"
           "list_all isKeyInstruction ks" "isSmallInt (op t2)" "n2 = n + 1 + int (length ks)"
           "script t2 = script t'" by blast
      have "drop (offset t) (script t) = instructions ((op t', data t') # ks) @ op t2 # drop (offset t2) (script t)"
        using dr ks(1) sc by simp
      moreover have "list_all isKeyInstruction ((op t', data t') # ks)"
        using ks(2) wf nsi by (simp add: isKeyInstruction_def)
      ultimately show ?thesis using ks(3,4,5) sc ne
        by (intro exI [of _ "(op t', data t') # ks"]) simp
    qed
  qed
qed

section \<open>Lemmas about the script templates\<close>

lemma split25:
  assumes "length (s :: 'a list) = 25"
  shows "s = [s ! 0, s ! 1, s ! 2] @ take 20 (drop 3 s) @ [s ! 23, s ! 24]"
  using assms
  by (intro nth_equalityI) (auto simp: nth_append nth_Cons' less_Suc_eq numeral_eq_Suc)

lemma Make_simps [simp]:
  "script (MakeScriptTokenizer s) = s" "offset (MakeScriptTokenizer s) = 0"
  "err (MakeScriptTokenizer s) = False"
  by (simp_all add: MakeScriptTokenizer_def)

lemma last_nth_singleton:
  assumes "length s - n = 1" "n < length s"
  shows "drop n s = [s ! (length s - 1)]"
proof -
  have "drop n s = s ! n # drop (Suc n) s" using assms(2) by (simp add: Cons_nth_drop_Suc)
  moreover have "Suc n = length s" using assms by simp
  moreover from this have "length s - 1 = n" by simp
  ultimately show ?thesis by simp
qed

lemma isMultisigScript_iff:
  "isMultisigScript s \<longleftrightarrow>
     (\<exists>m ks nb. s = m # instructions ks @ [nb, OP_CHECKMULTISIG] \<and> isSmallInt m \<and> isSmallInt nb \<and>
        list_all isKeyInstruction ks \<and> asSmallInt nb = int (length ks))"
  (is "?L \<longleftrightarrow> ?R")
proof
  assume L: ?L
  let ?t0 = "MakeScriptTokenizer s"
  obtain ok t1 where n1: "Next ?t0 = (ok, t1)" by (cases "Next ?t0")
  obtain t2 n pks where lp: "multisigKeysLoop t1 False 0 [] = (t2, n, pks)"
    by (cases "multisigKeysLoop t1 False 0 []")
  from L n1 lp have len: "3 \<le> length s" and lastb: "s ! (length s - 1) = OP_CHECKMULTISIG"
    and ok: "ok" and m: "isSmallInt (op t1)" and nd: "\<not> Done t2" and nb: "isSmallInt (op t2)"
    and cnt: "asSmallInt (op t2) = n" and one: "int (length (script t2)) - int (offset t2) = 1"
    by (auto simp: isMultisigScript_def extractMultisigScriptDetails_def noMultiSigDetails_def
        split: if_splits)
  from n1 ok have n1': "Next ?t0 = (True, t1)" by simp
  from Next_TrueD [OF n1'] have wf1: "wellFormedInstruction (op t1) (data t1)"
    and d1: "s = instruction (op t1) (data t1) @ drop (offset t1) s"
    and t1: "t1 = ?t0\<lparr>offset := length (instruction (op t1) (data t1)), op := op t1, data := data t1\<rparr>"
    by simp_all
  have sc1: "script t1 = s" by (subst t1) simp
  from wf1 m have "data t1 = []" using smallInt_instruction(1) by blast
  then have i1: "instruction (op t1) (data t1) = [op t1]" using smallInt_instruction(2) [OF m] by simp
  have o1: "offset t1 = 1" by (subst t1) (simp add: i1)
  from multisigKeysLoop_backward [OF lp nd] obtain ks where
    ks: "drop (offset t1) (script t1) = instructions ks @ op t2 # drop (offset t2) (script t1)"
      "list_all isKeyInstruction ks" "n = 0 + int (length ks)" "script t2 = script t1"
    by blast
  from nd have o2: "offset t2 < length s" by (simp add: Done_def ks(4) sc1)
  from one have "length s - offset t2 = 1" using o2 by (simp add: ks(4) sc1)
  from last_nth_singleton [OF this o2] lastb
  have tl: "drop (offset t2) s = [OP_CHECKMULTISIG]" by simp
  have "s = op t1 # instructions ks @ [op t2, OP_CHECKMULTISIG]"
    using d1 ks(1) tl by (simp add: i1 sc1)
  moreover have "asSmallInt (op t2) = int (length ks)" using cnt ks(3) by simp
  ultimately show ?R using m nb ks(2) by blast
next
  assume ?R
  then obtain m ks nb where s: "s = m # instructions ks @ [nb, OP_CHECKMULTISIG]"
    and m: "isSmallInt m" and nb: "isSmallInt nb" and ks: "list_all isKeyInstruction ks"
    and cnt: "asSmallInt nb = int (length ks)" by blast
  let ?t0 = "MakeScriptTokenizer s"
  have d0: "drop (offset ?t0) (script ?t0) = instruction m [] @ (instructions ks @ [nb, OP_CHECKMULTISIG])"
    using s smallInt_instruction(2) [OF m] by simp
  have wf0: "wellFormedInstruction m []" using smallInt_instruction(1) [OF m] by simp
  define t1 where "t1 = ?t0\<lparr>offset := 1, op := m, data := []\<rparr>"
  from Next_instruction [OF _ d0 wf0] smallInt_instruction(2) [OF m]
  have n1: "Next ?t0 = (True, t1)" by (simp add: t1_def)
  have e1: "\<not> err t1" by (simp add: t1_def)
  have d1: "drop (offset t1) (script t1) = instructions ks @ nb # [OP_CHECKMULTISIG]"
    by (simp add: t1_def s)
  from multisigKeysLoop_forward [OF e1 d1 ks nb, of False 0 "[]"]
  obtain t2 pks' where lp: "multisigKeysLoop t1 False 0 [] = (t2, int (length ks), pks')"
    and e2: "\<not> err t2" and sc2: "script t2 = script t1" and o2: "op t2 = nb"
    and off2: "offset t2 = offset t1 + length (instructions ks) + 1" by auto
  have ls: "length s = length (instructions ks) + 3" by (simp add: s)
  have nd: "\<not> Done t2" using e2 by (simp add: Done_def sc2 off2 t1_def ls)
  have lastb: "s ! (length s - 1) = OP_CHECKMULTISIG"
    by (simp add: s nth_append nth_Cons')
  show ?L
    using n1 lp nd m nb cnt lastb
    by (simp add: isMultisigScript_def extractMultisigScriptDetails_def ls t1_def o2 sc2 off2)
qed

lemma isNullDataScript_iff:
  "isNullDataScript s \<longleftrightarrow>
     s = [OP_RETURN] \<or>
     (\<exists>opc d. s = OP_RETURN # instruction opc d \<and> wellFormedInstruction opc d \<and>
        (isSmallInt opc \<or> opc \<le> OP_PUSHDATA4) \<and> length d \<le> MaxDataCarrierSize)"
  (is "?L \<longleftrightarrow> ?A \<or> ?B")
proof
  assume L: ?L
  then have ne: "1 \<le> length s" and h: "s ! 0 = OP_RETURN"
    by (auto simp: isNullDataScript_def Suc_le_eq split: if_splits)
  then have sp: "s = OP_RETURN # drop 1 s" by (cases s) simp_all
  show "?A \<or> ?B"
  proof (cases "length s = 1")
    case True
    with sp show ?thesis by (cases s) simp_all
  next
    case False
    let ?t0 = "MakeScriptTokenizer (drop 1 s)"
    obtain ok t where nx: "Next ?t0 = (ok, t)" by (cases "Next ?t0")
    from L False ne h nx have ok: ok and dn: "Done t"
      and pu: "isSmallInt (op t) \<or> op t \<le> OP_PUSHDATA4" and le: "length (data t) \<le> MaxDataCarrierSize"
      by (simp_all add: isNullDataScript_def split: if_splits)
    from nx ok have nx': "Next ?t0 = (True, t)" by simp
    from Next_TrueD [OF nx'] have wf: "wellFormedInstruction (op t) (data t)"
      and d: "drop 1 s = instruction (op t) (data t) @ drop (offset t) (drop 1 s)"
      and t: "t = ?t0\<lparr>offset := length (instruction (op t) (data t)), op := op t, data := data t\<rparr>"
      by (simp_all only: Make_simps drop_0 add_0)
    have sct: "script t = drop 1 s" by (subst t) simp
    have net: "\<not> err t" by (subst t) simp
    from dn net have "length (script t) \<le> offset t" by (simp add: Done_def)
    then have "length (drop 1 s) \<le> offset t" by (simp only: sct)
    then have "drop (offset t) (drop 1 s) = []" by (rule drop_all)
    with d have "drop 1 s = instruction (op t) (data t)" by (simp only: append_Nil2)
    with sp have "s = OP_RETURN # instruction (op t) (data t)" by simp
    with wf pu le show ?thesis by blast
  qed
next
  assume "?A \<or> ?B"
  then show ?L
  proof
    assume ?A
    then show ?L by (simp add: isNullDataScript_def)
  next
    assume ?B
    then obtain opc d where s: "s = OP_RETURN # instruction opc d" and wf: "wellFormedInstruction opc d"
      and pu: "isSmallInt opc \<or> opc \<le> OP_PUSHDATA4" and le: "length d \<le> MaxDataCarrierSize"
      by blast
    let ?t0 = "MakeScriptTokenizer (drop 1 s)"
    have d0: "drop (offset ?t0) (script ?t0) = instruction opc d @ []" by (simp add: s)
    from Next_instruction [OF _ d0 wf]
    have nx: "Next ?t0 = (True, ?t0\<lparr>offset := length (instruction opc d), op := opc, data := d\<rparr>)"
      by simp
    have l: "length s \<noteq> 1" "\<not> length s < 1" by (simp_all add: s)
    show ?L
      using nx pu le l
      by (simp add: isNullDataScript_def Done_def) (simp add: s)
  qed
qed

section \<open>Lemmas about the store\<close>

lemma length_forRange [simp]: "length (forRange f ps i cells) = length cells"
  by (induction ps arbitrary: i cells) auto

lemma forRange_other: "p \<notin> set ps \<Longrightarrow> forRange f ps i cells ! p = cells ! p"
  by (induction ps arbitrary: i cells) auto

lemma forRange_nth:
  "distinct ps \<Longrightarrow> j < length ps \<Longrightarrow> ps ! j < length cells \<Longrightarrow>
   forRange f ps i cells ! (ps ! j) = f (i + j) (cells ! (ps ! j))"
proof (induction ps arbitrary: i j cells)
  case Nil
  then show ?case by simp
next
  case (Cons p ps)
  show ?case
  proof (cases j)
    case 0
    with Cons.prems show ?thesis by (simp add: forRange_other)
  next
    case (Suc k)
    with Cons.prems have "ps ! k \<noteq> p" by auto
    with Suc Cons.prems Cons.IH [of k "cells[p := f i (cells ! p)]" "Suc i"]
    show ?thesis by simp
  qed
qed

lemma take_forRange:
  "\<forall>p \<in> set ps. n \<le> p \<Longrightarrow> take n (forRange f ps i cells) = take n cells"
  by (induction ps arbitrary: i cells) auto

lemma derefAll_valid:
  "\<forall>p \<in> set ps. p < length cells \<Longrightarrow> derefAll cells ps = Inr (map ((!) cells) ps)"
  by (induction ps) (auto simp: deref_def)

lemma derefAll_InrD:
  "derefAll cells ps = Inr vs \<Longrightarrow> (\<forall>p \<in> set ps. p < length cells) \<and> vs = map ((!) cells) ps"
  by (induction ps arbitrary: vs) (auto simp: deref_def split: sum.splits if_splits)

lemma derefAll_Inr:
  "derefAll cells ps = Inr vs \<longleftrightarrow> (\<forall>p \<in> set ps. p < length cells) \<and> vs = map ((!) cells) ps"
  using derefAll_valid derefAll_InrD by blast

lemma shallowCopyTx_Inr:
  "shallowCopyTx h tx = Inr (h1, txCopy) \<longleftrightarrow>
     wellFormedTx h tx \<and>
     h1 = h\<lparr>txins := txins h @ map ((!) (txins h)) (TxIn (txs h ! tx)),
            txouts := txouts h @ map ((!) (txouts h)) (TxOut (txs h ! tx))\<rparr> \<and>
     txCopy = \<lparr>Version = Version (txs h ! tx),
               TxIn = [length (txins h) ..< length (txins h) + length (TxIn (txs h ! tx))],
               TxOut = [length (txouts h) ..< length (txouts h) + length (TxOut (txs h ! tx))],
               LockTime = LockTime (txs h ! tx)\<rparr>"
proof (cases "wellFormedTx h tx")
  case True
  then show ?thesis
    by (auto simp: shallowCopyTx_def wellFormedTx_def deref_def derefAll_valid list_all_iff)
next
  case False
  then show ?thesis
    by (auto simp: shallowCopyTx_def wellFormedTx_def deref_def list_all_iff
        dest!: derefAll_InrD split: sum.splits if_splits)
qed

lemma set_take_upt: "p \<in> set (take k [n..<m]) \<Longrightarrow> n \<le> p"
  by (auto dest: in_set_takeD)

lemma take_take_forRange:
  "\<forall>p \<in> set ps. n \<le> p \<Longrightarrow> take n cells = old \<Longrightarrow> take n (forRange f ps i cells) = old"
  by (simp add: take_forRange)

lemma sigHashTxCopy_preserved:
  assumes "sigHashTxCopy h s hashType tx idx = Inr (h', txCopy)"
  shows "preserved h h'"
proof -
  obtain h1 c1 where sc: "shallowCopyTx h tx = Inr (h1, c1)"
    using assms by (auto simp: sigHashTxCopy_def Let_def split: sum.splits)
  from sc [unfolded shallowCopyTx_Inr]
  have h1: "txs h1 = txs h" "take (length (txins h)) (txins h1) = txins h"
      "take (length (txouts h)) (txouts h1) = txouts h"
    and c1: "TxIn c1 = [length (txins h) ..< length (txins h) + length (TxIn (txs h ! tx))]"
      "TxOut c1 = [length (txouts h) ..< length (txouts h) + length (TxOut (txs h ! tx))]"
    by simp_all
  have pin: "\<forall>p \<in> set (TxIn c1). length (txins h) \<le> p" by (simp add: c1)
  have pout: "\<forall>p \<in> set (take k (TxOut c1)). length (txouts h) \<le> p" for k
    by (auto simp: c1 dest!: in_set_takeD)
  show ?thesis
    using assms sc h1 pin pout
    by (auto simp: sigHashTxCopy_def preserved_def Let_def zeroOtherSequences_def take_forRange
        split: sum.splits if_splits)
qed

lemma calcSignatureHash_preserved:
  assumes "calcSignatureHash h s hashType tx idx = Inr (h', r)"
  shows "preserved h h'"
  using assms sigHashTxCopy_preserved
  by (auto simp: calcSignatureHash_def preserved_def split: sum.splits if_splits)

lemma CalcSignatureHash_preserved:
  assumes "CalcSignatureHash h s hashType tx idx = Inr (h', r)"
  shows "preserved h h'"
  using assms calcSignatureHash_preserved
  by (auto simp: CalcSignatureHash_def preserved_def split: sum.splits option.splits)

lemma preserved_nth:
  assumes "preserved h h'"
  shows "p < length (txins h) \<Longrightarrow> p < length (txins h') \<and> txins h' ! p = txins h ! p"
    and "q < length (txouts h) \<Longrightarrow> q < length (txouts h') \<and> txouts h' ! q = txouts h ! q"
proof -
  from assms have a: "take (length (txins h)) (txins h') = txins h"
    and b: "take (length (txouts h)) (txouts h') = txouts h" by (simp_all add: preserved_def)
  show "p < length (txins h) \<Longrightarrow> p < length (txins h') \<and> txins h' ! p = txins h ! p"
    by (metis a length_take min_less_iff_conj nth_take)
  show "q < length (txouts h) \<Longrightarrow> q < length (txouts h') \<and> txouts h' ! q = txouts h ! q"
    by (metis b length_take min_less_iff_conj nth_take)
qed

lemma preserved_readTx:
  assumes "preserved h h'" "wellFormedTx h tx"
  shows "readTx h' tx = readTx h tx"
proof -
  let ?t = "txs h ! tx"
  from assms(2) have v: "tx < length (txs h)" "\<forall>p \<in> set (TxIn ?t). p < length (txins h)"
    "\<forall>p \<in> set (TxOut ?t). p < length (txouts h)" by (simp_all add: wellFormedTx_def list_all_iff)
  from assms(1) have t: "txs h' = txs h" by (simp add: preserved_def)
  have i: "\<forall>p \<in> set (TxIn ?t). p < length (txins h')" "map ((!) (txins h')) (TxIn ?t) = map ((!) (txins h)) (TxIn ?t)"
    using v(2) preserved_nth(1) [OF assms(1)] by auto
  have o: "\<forall>p \<in> set (TxOut ?t). p < length (txouts h')" "map ((!) (txouts h')) (TxOut ?t) = map ((!) (txouts h)) (TxOut ?t)"
    using v(3) preserved_nth(2) [OF assms(1)] by auto
  show ?thesis
    using v t i o by (simp add: readTx_def deref_def derefAll_valid)
qed

lemma CalcSignatureHash_returns:
  assumes "CalcSignatureHash h s hashType tx idx = Inr (h', r)"
  shows "h' = h \<or> wellFormedTx h tx"
  using assms
  by (auto simp: CalcSignatureHash_def calcSignatureHash_def sigHashTxCopy_def Let_def shallowCopyTx_Inr
      split: sum.splits option.splits if_splits)

section \<open>The classes do not overlap\<close>

lemma isPubKeyScript_ends:
  assumes "isPubKeyScript s"
  shows "s \<noteq> [] \<and> s ! (length s - 1) = OP_CHECKSIG \<and> (s ! 0 = OP_DATA_33 \<or> s ! 0 = OP_DATA_65)"
  using assms
  by (auto simp: isPubKeyScript_def extractPubKey_def extractCompressedPubKey_def
      extractUncompressedPubKey_def split: option.splits if_splits)

lemma isPubKeyHashScript_ends:
  assumes "isPubKeyHashScript s"
  shows "s \<noteq> [] \<and> s ! (length s - 1) = OP_CHECKSIG \<and> s ! 0 = OP_DUP \<and> length s = 25"
  using assms by (auto simp: isPubKeyHashScript_def extractPubKeyHash_def split: if_splits)

lemma isScriptHashScript_ends:
  assumes "isScriptHashScript s"
  shows "s \<noteq> [] \<and> s ! (length s - 1) = OP_EQUAL \<and> s ! 0 = OP_HASH160"
  using assms by (auto simp: isScriptHashScript_def extractScriptHash_def split: if_splits)

lemma isMultisigScript_ends:
  assumes "isMultisigScript s"
  shows "s \<noteq> [] \<and> s ! (length s - 1) = OP_CHECKMULTISIG \<and> isSmallInt (s ! 0)"
proof -
  from assms obtain m ks nb where "s = m # instructions ks @ [nb, OP_CHECKMULTISIG]" "isSmallInt m"
    unfolding isMultisigScript_iff by blast
  then show ?thesis by (simp add: nth_append)
qed

lemma isNullDataScript_ends:
  assumes "isNullDataScript s"
  shows "s \<noteq> [] \<and> s ! 0 = OP_RETURN"
  using assms by (auto simp: isNullDataScript_def split: if_splits)

lemma opcode_distinct:
  "OP_CHECKSIG \<noteq> OP_CHECKMULTISIG" "OP_EQUAL \<noteq> OP_CHECKMULTISIG"
  "OP_DATA_33 \<noteq> OP_RETURN" "OP_DATA_65 \<noteq> OP_RETURN" "OP_DUP \<noteq> OP_RETURN"
  "OP_HASH160 \<noteq> OP_RETURN" "\<not> isSmallInt OP_RETURN"
  by (simp_all add: OP_CHECKSIG_def OP_CHECKMULTISIG_def OP_EQUAL_def OP_DATA_33_def
      OP_DATA_65_def OP_RETURN_def OP_DUP_def OP_HASH160_def isSmallInt_def OP_0_def OP_1_def
      OP_16_def)

lemma class_distinct:
  "PubKeyTy \<noteq> PubKeyHashTy" "PubKeyTy \<noteq> MultiSigTy" "PubKeyTy \<noteq> NullDataTy"
  "PubKeyHashTy \<noteq> ScriptHashTy" "PubKeyHashTy \<noteq> MultiSigTy" "PubKeyHashTy \<noteq> NullDataTy"
  "ScriptHashTy \<noteq> MultiSigTy" "ScriptHashTy \<noteq> NullDataTy" "MultiSigTy \<noteq> NullDataTy"
  "NonStandardTy \<noteq> PubKeyHashTy" "NonStandardTy \<noteq> MultiSigTy" "NonStandardTy \<noteq> NullDataTy"
  by (simp_all add: PubKeyTy_def PubKeyHashTy_def ScriptHashTy_def MultiSigTy_def NullDataTy_def
      NonStandardTy_def)

lemma typeOfScript_PubKeyHashTy: "typeOfScript s = PubKeyHashTy \<longleftrightarrow> isPubKeyHashScript s"
proof -
  have "\<not> isPubKeyScript s" if "isPubKeyHashScript s"
    using that
    by (auto simp: isPubKeyHashScript_def extractPubKeyHash_def isPubKeyScript_def extractPubKey_def
        extractCompressedPubKey_def extractUncompressedPubKey_def split: option.splits if_splits)
  then show ?thesis
    using class_distinct by (auto simp: typeOfScript_def)
qed

lemma typeOfScript_MultiSigTy: "typeOfScript s = MultiSigTy \<longleftrightarrow> isMultisigScript s"
proof -
  have "\<not> isPubKeyScript s \<and> \<not> isPubKeyHashScript s \<and> \<not> isScriptHashScript s" if "isMultisigScript s"
    using isMultisigScript_ends [OF that] isPubKeyScript_ends [of s] isPubKeyHashScript_ends [of s]
      isScriptHashScript_ends [of s] opcode_distinct
    by auto
  then show ?thesis
    using class_distinct by (auto simp: typeOfScript_def)
qed

lemma typeOfScript_NullDataTy: "typeOfScript s = NullDataTy \<longleftrightarrow> isNullDataScript s"
proof -
  have "\<not> isPubKeyScript s \<and> \<not> isPubKeyHashScript s \<and> \<not> isScriptHashScript s \<and> \<not> isMultisigScript s"
    if "isNullDataScript s"
    using isNullDataScript_ends [OF that] isPubKeyScript_ends [of s] isPubKeyHashScript_ends [of s]
      isScriptHashScript_ends [of s] isMultisigScript_ends [of s] opcode_distinct
    by auto
  then show ?thesis
    using class_distinct by (auto simp: typeOfScript_def)
qed

lemma isPubKeyHashScript_iff:
  "isPubKeyHashScript s \<longleftrightarrow>
     (\<exists>h. length h = 20 \<and> s = [OP_DUP, OP_HASH160, OP_DATA_20] @ h @ [OP_EQUALVERIFY, OP_CHECKSIG])"
proof
  assume "isPubKeyHashScript s"
  then have len: "length s = 25" and b: "s ! 0 = OP_DUP" "s ! 1 = OP_HASH160" "s ! 2 = OP_DATA_20"
    "s ! 23 = OP_EQUALVERIFY" "s ! 24 = OP_CHECKSIG"
    by (auto simp: isPubKeyHashScript_def extractPubKeyHash_def split: if_splits)
  from split25 [OF len] b
  have "s = [OP_DUP, OP_HASH160, OP_DATA_20] @ take 20 (drop 3 s) @ [OP_EQUALVERIFY, OP_CHECKSIG]"
    by simp
  moreover have "length (take 20 (drop 3 s)) = 20" using len by simp
  ultimately show "\<exists>h. length h = 20 \<and>
      s = [OP_DUP, OP_HASH160, OP_DATA_20] @ h @ [OP_EQUALVERIFY, OP_CHECKSIG]"
    by blast
next
  assume "\<exists>h. length h = 20 \<and> s = [OP_DUP, OP_HASH160, OP_DATA_20] @ h @ [OP_EQUALVERIFY, OP_CHECKSIG]"
  then show "isPubKeyHashScript s"
    by (auto simp: isPubKeyHashScript_def extractPubKeyHash_def nth_append)
qed

lemma asSmallInt_bounds:
  assumes "isSmallInt b"
  shows "0 \<le> asSmallInt b \<and> asSmallInt b \<le> 16"
proof (cases "b = OP_0")
  case True
  then show ?thesis by (simp add: asSmallInt_def)
next
  case False
  with assms have r: "81 \<le> unat b" "unat b \<le> 96"
    by (auto simp: isSmallInt_def OP_1_def OP_16_def word_le_nat_alt)
  have "unat (b - (OP_1 - 1)) = unat b - 80"
    using r by (simp add: OP_1_def unat_sub word_le_nat_alt)
  with False have a: "asSmallInt b = int (unat b - 80)" by (simp only: asSmallInt_def if_False)
  from r have "0 \<le> int (unat b - 80) \<and> int (unat b - 80) \<le> 16" by linarith
  then show ?thesis by (simp only: a)
qed

lemma extractMultisigScriptDetails_form:
  assumes s: "s = m # instructions ks @ [nb, OP_CHECKMULTISIG]"
    and m: "isSmallInt m" and nb: "isSmallInt nb" and ks: "list_all isKeyInstruction ks"
    and cnt: "asSmallInt nb = int (length ks)"
  shows "\<exists>pks. extractMultisigScriptDetails s e =
           \<lparr>requiredSigs = asSmallInt m, numPubKeys = int (length ks), pubKeys = pks, valid = True\<rparr>"
proof -
  let ?t0 = "MakeScriptTokenizer s"
  have d0: "drop (offset ?t0) (script ?t0) = instruction m [] @ (instructions ks @ [nb, OP_CHECKMULTISIG])"
    using s smallInt_instruction(2) [OF m] by simp
  have wf0: "wellFormedInstruction m []" using smallInt_instruction(1) [OF m] by simp
  define t1 where "t1 = ?t0\<lparr>offset := 1, op := m, data := []\<rparr>"
  from Next_instruction [OF _ d0 wf0] smallInt_instruction(2) [OF m]
  have n1: "Next ?t0 = (True, t1)" by (simp add: t1_def)
  have e1: "\<not> err t1" by (simp add: t1_def)
  have d1: "drop (offset t1) (script t1) = instructions ks @ nb # [OP_CHECKMULTISIG]"
    by (simp add: t1_def s)
  from multisigKeysLoop_forward [OF e1 d1 ks nb, of e 0 "[]"]
  obtain t2 pks' where lp: "multisigKeysLoop t1 e 0 [] = (t2, int (length ks), pks')"
    and e2: "\<not> err t2" and sc2: "script t2 = script t1" and o2: "op t2 = nb"
    and off2: "offset t2 = offset t1 + length (instructions ks) + 1" by auto
  have ls: "length s = length (instructions ks) + 3" by (simp add: s)
  have nd: "\<not> Done t2" using e2 by (simp add: Done_def sc2 off2 t1_def ls)
  have lastb: "s ! (length s - 1) = OP_CHECKMULTISIG"
    by (simp add: s nth_append nth_Cons')
  have "extractMultisigScriptDetails s e =
      \<lparr>requiredSigs = asSmallInt m, numPubKeys = int (length ks), pubKeys = pks', valid = True\<rparr>"
    using n1 lp nd m nb cnt lastb
    by (simp add: extractMultisigScriptDetails_def ls t1_def o2 sc2 off2)
  then show ?thesis by blast
qed

section \<open>The signature hash\<close>

text \<open>
  C1. For every transaction, script and index: when \<open>hashType & 0x1f\<close> is
  \<open>SigHashSingle\<close> and the index is not below the number of outputs, the signature hash
  is the 32 bytes \<open>01 00 ... 00\<close>, and the store is left as it was. The exported
  \<open>CalcSignatureHash\<close> returns the same hash when the script parses. The transaction is
  any pointer to a \<open>MsgTx\<close> (a \<open>nil\<close> pointer panics before the test).
\<close>

theorem calcSignatureHash_single_out_of_range:
  assumes "tx < length (txs h)" and "hashType AND sigHashMask = SigHashSingle"
    and "int (length (TxOut (txs h ! tx))) \<le> idx"
  shows "calcSignatureHash h sigScript hashType tx idx = Inr (h, 1 # replicate 31 0) \<and>
         (checkScriptParses sigScript = None \<longrightarrow>
            CalcSignatureHash h sigScript hashType tx idx = Inr (h, Inr (1 # replicate 31 0)))"
  using assms by (simp add: CalcSignatureHash_def calcSignatureHash_def deref_def hashOne_def)

text \<open>
  The scenario of the spec: two inputs, one output, \<open>SigHashSingle\<close>, input index 1.
\<close>

theorem calcSignatureHash_single_out_of_range_witness:
  "length (TxIn (txs exampleHeap ! 0)) = 2 \<and> length (TxOut (txs exampleHeap ! 0)) = 1 \<and>
   calcSignatureHash exampleHeap [OP_CHECKSIG] SigHashSingle 0 1 =
     Inr (exampleHeap, [1, 0, 0, 0, 0, 0, 0, 0, 0, 0, 0, 0, 0, 0, 0, 0,
                        0, 0, 0, 0, 0, 0, 0, 0, 0, 0, 0, 0, 0, 0, 0, 0])"
  using calcSignatureHash_single_out_of_range [of 0 exampleHeap SigHashSingle 1 "[OP_CHECKSIG]"]
  by (simp add: exampleHeap_def SigHashSingle_def sigHashMask_def numeral_eq_Suc)

text \<open>
  C8. For a well-formed transaction, a valid input index and \<open>hashType & 0x1f\<close> equal to
  \<open>SigHashNone\<close>, \<open>calcSignatureHash\<close> returns the double SHA-256 of the serialisation
  of \<open>txCopy\<close> with the hash type appended, where \<open>txCopy\<close> has no outputs. Without
  \<open>SigHashAnyOneCanPay\<close> it has all the inputs, each with sequence 0 but input \<open>idx\<close>,
  which has the sequence of the transaction's input \<open>idx\<close>; with \<open>SigHashAnyOneCanPay\<close>
  it has that input alone. Nothing is asked of the number of outputs.
\<close>

theorem sigHashTxCopy_none:
  assumes wf: "wellFormedTx h tx" and none: "hashType AND sigHashMask = SigHashNone"
    and idx: "0 \<le> idx" "idx < int (length (TxIn (txs h ! tx)))"
  shows "\<exists>h' txCopy.
      sigHashTxCopy h s hashType tx idx = Inr (h', txCopy) \<and>
      calcSignatureHash h s hashType tx idx =
        Inr (h', DoubleHashB (SerializeNoWitness h' txCopy @ le_bytes 4 hashType)) \<and>
      TxOut txCopy = [] \<and>
      (if hashType AND SigHashAnyOneCanPay = 0 then
         length (TxIn txCopy) = length (TxIn (txs h ! tx)) \<and>
         (\<forall>i < length (TxIn txCopy).
            Sequence (txins h' ! (TxIn txCopy ! i)) =
              (if int i = idx then Sequence (txins h ! (TxIn (txs h ! tx) ! i)) else 0))
       else
         length (TxIn txCopy) = 1 \<and>
         Sequence (txins h' ! (TxIn txCopy ! 0)) = Sequence (txins h ! (TxIn (txs h ! tx) ! nat idx)))"
proof -
  let ?t = "txs h ! tx"
  define n where "n = length (txins h)"
  define k where "k = length (TxIn ?t)"
  define cells1 where "cells1 = txins h @ map ((!) (txins h)) (TxIn ?t)"
  define c1 where "c1 = \<lparr>Version = Version ?t, TxIn = [n ..< n + k],
      TxOut = [length (txouts h) ..< length (txouts h) + length (TxOut ?t)], LockTime = LockTime ?t\<rparr>"
  define h1 where "h1 = h\<lparr>txins := cells1, txouts := txouts h @ map ((!) (txouts h)) (TxOut ?t)\<rparr>"
  define f :: "nat \<Rightarrow> TxIn \<Rightarrow> TxIn" where "f = (\<lambda>i ti. ti\<lparr>SignatureScript := (if int i = idx then removeOpcodeRaw s OP_CODESEPARATOR else [])\<rparr>)"
  define g :: "nat \<Rightarrow> TxIn \<Rightarrow> TxIn" where "g = (\<lambda>i ti. if int i \<noteq> idx then ti\<lparr>Sequence := 0\<rparr> else ti)"
  define cells3 where "cells3 = forRange g [n ..< n + k] 0 (forRange f [n ..< n + k] 0 cells1)"
  have sc: "shallowCopyTx h tx = Inr (h1, c1)"
    using wf by (simp add: shallowCopyTx_Inr h1_def c1_def cells1_def n_def k_def)
  have ns: "SigHashNone \<noteq> SigHashSingle" by (simp add: SigHashNone_def SigHashSingle_def)
  have tv: "deref (txs h) tx = Inr ?t" using wf by (simp add: wellFormedTx_def deref_def)
  have seq: "Sequence (cells3 ! (n + i)) = (if int i = idx then Sequence (txins h ! (TxIn ?t ! i)) else 0)"
    if "i < k" for i
  proof -
    have l: "([n ..< n + k]) ! i = n + i" using that by simp
    have len: "length cells1 = n + k" by (simp add: cells1_def n_def k_def)
    have c: "cells1 ! (n + i) = txins h ! (TxIn ?t ! i)"
      using that by (simp add: cells1_def n_def k_def nth_append)
    have "cells3 ! ([n ..< n + k] ! i) = g (0 + i) (forRange f [n ..< n + k] 0 cells1 ! ([n ..< n + k] ! i))"
      unfolding cells3_def using that by (intro forRange_nth) (simp_all add: len)
    also have "forRange f [n ..< n + k] 0 cells1 ! ([n ..< n + k] ! i) = f (0 + i) (cells1 ! ([n ..< n + k] ! i))"
      using that by (intro forRange_nth) (simp_all add: len)
    finally show ?thesis by (simp add: l c f_def g_def)
  qed
  define h' where "h' = h1\<lparr>txins := cells3\<rparr>"
  define txCopy where "txCopy = (if hashType AND SigHashAnyOneCanPay \<noteq> 0
      then c1\<lparr>TxOut := [], TxIn := [n + nat idx]\<rparr> else c1\<lparr>TxOut := []\<rparr>)"
  have ik: "nat idx < k" using idx by (simp add: k_def)
  have r: "sigHashTxCopy h s hashType tx idx = Inr (h', txCopy)"
    using sc none ns idx ik
    by (simp add: sigHashTxCopy_def Let_def zeroOtherSequences_def h'_def txCopy_def cells3_def
        f_def g_def c1_def h1_def k_def)
  have r2: "calcSignatureHash h s hashType tx idx =
        Inr (h', DoubleHashB (SerializeNoWitness h' txCopy @ le_bytes 4 hashType))"
    using r none ns tv by (simp add: calcSignatureHash_def)
  have "TxOut txCopy = []" by (simp add: txCopy_def)
  moreover have "(if hashType AND SigHashAnyOneCanPay = 0 then
         length (TxIn txCopy) = length (TxIn (txs h ! tx)) \<and>
         (\<forall>i < length (TxIn txCopy).
            Sequence (txins h' ! (TxIn txCopy ! i)) =
              (if int i = idx then Sequence (txins h ! (TxIn (txs h ! tx) ! i)) else 0))
       else
         length (TxIn txCopy) = 1 \<and>
         Sequence (txins h' ! (TxIn txCopy ! 0)) = Sequence (txins h ! (TxIn (txs h ! tx) ! nat idx)))"
    using seq ik idx(1) by (auto simp: txCopy_def c1_def h'_def k_def)
  ultimately show ?thesis using r r2 by blast
qed

lemma wellFormedTx_example: "wellFormedTx exampleHeap 0"
  by (simp add: wellFormedTx_def exampleHeap_def)

theorem sigHashTxCopy_none_witness:
  "\<exists>h' txCopy.
      sigHashTxCopy exampleHeap [OP_CHECKSIG] SigHashNone 0 1 = Inr (h', txCopy) \<and>
      TxOut txCopy = [] \<and> map (\<lambda>p. Sequence (txins h' ! p)) (TxIn txCopy) = [0, 0xfffffffe]"
proof -
  have a: "SigHashNone AND sigHashMask = SigHashNone" "SigHashNone AND SigHashAnyOneCanPay = 0"
    by (simp_all add: SigHashNone_def sigHashMask_def SigHashAnyOneCanPay_def)
  have l: "length (TxIn (txs exampleHeap ! 0)) = 2" by (simp add: exampleHeap_def)
  from sigHashTxCopy_none [OF wellFormedTx_example a(1), of 1 "[OP_CHECKSIG]"]
  obtain h' txCopy where r: "sigHashTxCopy exampleHeap [OP_CHECKSIG] SigHashNone 0 1 = Inr (h', txCopy)"
    "TxOut txCopy = []" "length (TxIn txCopy) = 2"
    "\<forall>i < length (TxIn txCopy). Sequence (txins h' ! (TxIn txCopy ! i)) =
        (if int i = 1 then Sequence (txins exampleHeap ! (TxIn (txs exampleHeap ! 0) ! i)) else 0)"
    by (auto simp: a l)
  from r(3) obtain p q where pq: "TxIn txCopy = [p, q]"
    by (metis (no_types, opaque_lifting) One_nat_def Suc_1 length_0_conv length_Suc_conv)
  from r(4) have "Sequence (txins h' ! p) = 0" "Sequence (txins h' ! q) = 0xfffffffe"
    by (auto simp: pq exampleHeap_def exampleTxIn_def)
  with r pq show ?thesis by auto
qed

text \<open>
  C9. When \<open>CalcSignatureHash\<close> returns, with a hash or with the error of a script that
  does not parse, every cell of the store that existed before the call has the content it
  had: the call only adds cells. So every field of the transaction, read through its
  pointers, is what it was before the call.
\<close>

theorem CalcSignatureHash_frame:
  assumes "CalcSignatureHash h s hashType tx idx = Inr (h', r)"
  shows "preserved h h' \<and> readTx h' tx = readTx h tx"
proof -
  have p: "preserved h h'" using assms by (rule CalcSignatureHash_preserved)
  from CalcSignatureHash_returns [OF assms] show ?thesis
  proof
    assume "h' = h"
    with p show ?thesis by simp
  next
    assume "wellFormedTx h tx"
    with p preserved_readTx show ?thesis by blast
  qed
qed

theorem CalcSignatureHash_frame_witness:
  "\<exists>h' r. CalcSignatureHash exampleHeap [OP_CHECKSIG] SigHashAll 0 1 = Inr (h', Inr r) \<and>
     length (txins h') = 4 \<and>
     preserved exampleHeap h' \<and> readTx h' 0 = readTx exampleHeap 0"
proof -
  have p: "checkScriptParses [OP_CHECKSIG] = None"
    by (simp add: checkScriptParses_def parseToEnd.simps Next_def Done_def MakeScriptTokenizer_def
        opcodeLength_def OP_CHECKSIG_def OP_DATA_75_def OP_PUSHDATA1_def OP_PUSHDATA2_def
        OP_PUSHDATA4_def)
  have m: "SigHashAll AND sigHashMask \<noteq> SigHashSingle" "SigHashAll AND sigHashMask \<noteq> SigHashNone"
    "SigHashAll AND SigHashAnyOneCanPay = 0"
    by (simp_all add: SigHashAll_def SigHashSingle_def SigHashNone_def sigHashMask_def SigHashAnyOneCanPay_def)
  obtain h1 c1 where sc: "shallowCopyTx exampleHeap 0 = Inr (h1, c1)" and l: "length (txins h1) = 4"
    using wellFormedTx_example by (simp add: shallowCopyTx_Inr exampleHeap_def)
  have "\<exists>h' r. CalcSignatureHash exampleHeap [OP_CHECKSIG] SigHashAll 0 1 = Inr (h', Inr r) \<and> length (txins h') = 4"
    using p m sc l
    by (simp add: CalcSignatureHash_def calcSignatureHash_def sigHashTxCopy_def Let_def deref_def
        exampleHeap_def)
  then obtain h' r where r: "CalcSignatureHash exampleHeap [OP_CHECKSIG] SigHashAll 0 1 = Inr (h', Inr r)"
    and l': "length (txins h') = 4" by blast
  from CalcSignatureHash_frame [OF r] r l' show ?thesis by blast
qed

subsection \<open>The signing payload of the Construction test\<close>

text \<open>
  The model computes the values of \<open>TestConstructionService\<close>: the transaction in
  \<open>testHeap\<close> serialises to the bytes of the test's unsigned transaction, and its
  signature hash for input 0 with the script of the spent coin and \<open>SigHashAll\<close> is the
  signing payload \<open>b6aa747c...f3f41b05\<close> that the test expects.
\<close>

lemma SerializeNoWitness_test:
  "SerializeNoWitness testHeap (txs testHeap ! 0) = testUnsignedTx"
  by code_simp

lemma checkScriptParses_test: "checkScriptParses testPkScript = None"
  by code_simp

lemma removeOpcodeRaw_test: "removeOpcodeRaw testPkScript OP_CODESEPARATOR = testPkScript"
  by code_simp

lemma sigHashTxCopy_test:
  "sigHashTxCopy testHeap testPkScript SigHashAll 0 0 = Inr (testTxCopyHeap, testTxCopy)"
  unfolding sigHashTxCopy_def removeOpcodeRaw_test
  by (simp add: shallowCopyTx_def deref_def testHeap_def testTxCopyHeap_def testTxCopy_def
      SigHashAll_def sigHashMask_def SigHashNone_def SigHashSingle_def SigHashAnyOneCanPay_def)

lemma SerializeNoWitness_testTxCopy:
  "SerializeNoWitness testTxCopyHeap testTxCopy @ le_bytes 4 SigHashAll = testPreimage"
  by code_simp

lemma DoubleHashB_testPreimage: "DoubleHashB testPreimage = testSigningPayload"
  by code_simp

lemma calcSignatureHash_test_payload:
  "calcSignatureHash testHeap testPkScript SigHashAll 0 0 =
     Inr (testTxCopyHeap, testSigningPayload)"
proof -
  have a: "deref (txs testHeap) 0 =
             Inr \<lparr>Version = 2, TxIn = [0], TxOut = [0], LockTime = 0\<rparr>"
    by (simp add: deref_def testHeap_def)
  have b: "SigHashAll AND sigHashMask \<noteq> SigHashSingle"
    by (simp add: SigHashAll_def sigHashMask_def SigHashSingle_def)
  show ?thesis
    unfolding calcSignatureHash_def a using b
    by (simp add: sigHashTxCopy_test SerializeNoWitness_testTxCopy DoubleHashB_testPreimage)
qed

lemma CalcSignatureHash_test_payload:
  "CalcSignatureHash testHeap testPkScript SigHashAll 0 0 =
     Inr (testTxCopyHeap, Inr testSigningPayload)"
  by (simp add: CalcSignatureHash_def checkScriptParses_test calcSignatureHash_test_payload)

section \<open>The script templates\<close>

text \<open>
  C4, as the claim states it, fails, in each of its three conditions on the form. A
  script whose first opcode is \<open>OP_0\<close> (so \<open>m = 0\<close>) is classified as multisig. So is a
  script with \<open>m = 2\<close> signatures required of \<open>n = 1\<close> key. And so is
  \<open>OP_1 OP_DUP OP_1 OP_CHECKMULTISIG\<close>, where the instruction counted as the one key
  pushes nothing: no public key is extracted from it.
\<close>

theorem multisig_m_counterexample:
  "typeOfScript [OP_0, OP_0, OP_CHECKMULTISIG] = MultiSigTy \<and>
   requiredSigs (extractMultisigScriptDetails [OP_0, OP_0, OP_CHECKMULTISIG] True) = 0 \<and>
   typeOfScript ([0x52, OP_DATA_33] @ testPubKey @ [OP_1, OP_CHECKMULTISIG]) = MultiSigTy \<and>
   requiredSigs
     (extractMultisigScriptDetails ([0x52, OP_DATA_33] @ testPubKey @ [OP_1, OP_CHECKMULTISIG]) True) = 2 \<and>
   numPubKeys
     (extractMultisigScriptDetails ([0x52, OP_DATA_33] @ testPubKey @ [OP_1, OP_CHECKMULTISIG]) True) = 1 \<and>
   typeOfScript [OP_1, OP_DUP, OP_1, OP_CHECKMULTISIG] = MultiSigTy \<and>
   numPubKeys (extractMultisigScriptDetails [OP_1, OP_DUP, OP_1, OP_CHECKMULTISIG] True) = 1 \<and>
   pubKeys (extractMultisigScriptDetails [OP_1, OP_DUP, OP_1, OP_CHECKMULTISIG] True) = []"
  by code_simp

text \<open>
  C4, amended. A script is classified as multisig exactly when it is
  \<open>m key ... key n OP_CHECKMULTISIG\<close>, where \<open>m\<close> and \<open>n\<close> are small-integer opcodes
  (\<open>OP_0\<close>, \<open>OP_1 .. OP_16\<close>), every \<open>key\<close> is one well-formed instruction whose
  opcode is not a small integer (it is counted whether or not it pushes a public key), and
  \<open>n\<close> is the number of these instructions. The right side of the equivalence is this
  form of the bytes alone: \<open>m\<close> is not compared with 1 or with \<open>n\<close>. For every script of
  the form, \<open>requiredSigs\<close> is \<open>m\<close> and \<open>numPubKeys\<close> is \<open>n\<close>, both between 0 and 16.
\<close>

theorem multisig_classification:
  "(typeOfScript s = MultiSigTy \<longleftrightarrow>
      (\<exists>m ks nb.
         s = m # instructions ks @ [nb, OP_CHECKMULTISIG] \<and>
         isSmallInt m \<and> isSmallInt nb \<and> list_all isKeyInstruction ks \<and>
         asSmallInt nb = int (length ks))) \<and>
   (\<forall>m ks nb.
      s = m # instructions ks @ [nb, OP_CHECKMULTISIG] \<and>
      isSmallInt m \<and> isSmallInt nb \<and> list_all isKeyInstruction ks \<and>
      asSmallInt nb = int (length ks) \<longrightarrow>
        valid (extractMultisigScriptDetails s e) \<and>
        requiredSigs (extractMultisigScriptDetails s e) = asSmallInt m \<and>
        numPubKeys (extractMultisigScriptDetails s e) = int (length ks) \<and>
        0 \<le> asSmallInt m \<and> asSmallInt m \<le> 16 \<and> length ks \<le> 16)"
proof (rule conjI)
  show "typeOfScript s = MultiSigTy \<longleftrightarrow>
      (\<exists>m ks nb.
         s = m # instructions ks @ [nb, OP_CHECKMULTISIG] \<and>
         isSmallInt m \<and> isSmallInt nb \<and> list_all isKeyInstruction ks \<and>
         asSmallInt nb = int (length ks))"
    by (simp only: typeOfScript_MultiSigTy isMultisigScript_iff)
next
  show "\<forall>m ks nb.
      s = m # instructions ks @ [nb, OP_CHECKMULTISIG] \<and>
      isSmallInt m \<and> isSmallInt nb \<and> list_all isKeyInstruction ks \<and>
      asSmallInt nb = int (length ks) \<longrightarrow>
        valid (extractMultisigScriptDetails s e) \<and>
        requiredSigs (extractMultisigScriptDetails s e) = asSmallInt m \<and>
        numPubKeys (extractMultisigScriptDetails s e) = int (length ks) \<and>
        0 \<le> asSmallInt m \<and> asSmallInt m \<le> 16 \<and> length ks \<le> 16"
  proof (intro allI impI)
    fix m ks nb
    assume h: "s = m # instructions ks @ [nb, OP_CHECKMULTISIG] \<and>
        isSmallInt m \<and> isSmallInt nb \<and> list_all isKeyInstruction ks \<and>
        asSmallInt nb = int (length ks)"
    then have f: "s = m # instructions ks @ [nb, OP_CHECKMULTISIG]"
      "isSmallInt m" "isSmallInt nb" "list_all isKeyInstruction ks"
      "asSmallInt nb = int (length ks)"
      by simp_all
    from extractMultisigScriptDetails_form [OF f, of e] obtain pks where
      d: "extractMultisigScriptDetails s e =
            \<lparr>requiredSigs = asSmallInt m, numPubKeys = int (length ks), pubKeys = pks,
             valid = True\<rparr>"
      by blast
    have l: "length ks \<le> 16" using asSmallInt_bounds [OF f(3)] f(5) by simp
    show "valid (extractMultisigScriptDetails s e) \<and>
          requiredSigs (extractMultisigScriptDetails s e) = asSmallInt m \<and>
          numPubKeys (extractMultisigScriptDetails s e) = int (length ks) \<and>
          0 \<le> asSmallInt m \<and> asSmallInt m \<le> 16 \<and> length ks \<le> 16"
      using d l asSmallInt_bounds [OF f(2)] by simp
  qed
qed

text \<open>
  Two scripts of the form, classified through the theorem: one-of-one with the compressed
  key of the test, and two-of-one with the same key, where \<open>m\<close> is greater than \<open>n\<close>.
\<close>

theorem multisig_classification_witness:
  "typeOfScript ([OP_1, OP_DATA_33] @ testPubKey @ [OP_1, OP_CHECKMULTISIG]) = MultiSigTy \<and>
   requiredSigs
     (extractMultisigScriptDetails ([OP_1, OP_DATA_33] @ testPubKey @ [OP_1, OP_CHECKMULTISIG]) True) = 1 \<and>
   numPubKeys
     (extractMultisigScriptDetails ([OP_1, OP_DATA_33] @ testPubKey @ [OP_1, OP_CHECKMULTISIG]) True) = 1 \<and>
   typeOfScript ([0x52, OP_DATA_33] @ testPubKey @ [OP_1, OP_CHECKMULTISIG]) = MultiSigTy \<and>
   requiredSigs
     (extractMultisigScriptDetails ([0x52, OP_DATA_33] @ testPubKey @ [OP_1, OP_CHECKMULTISIG]) True) = 2"
proof -
  have k: "list_all isKeyInstruction [(OP_DATA_33, testPubKey)]"
    by (simp add: isKeyInstruction_def wellFormedInstruction_def isSmallInt_def testPubKey_def
        OP_DATA_33_def OP_DATA_75_def OP_0_def OP_1_def OP_16_def)
  have i: "instruction OP_DATA_33 testPubKey = OP_DATA_33 # testPubKey"
    by (simp add: instruction_def OP_DATA_33_def OP_PUSHDATA1_def OP_PUSHDATA2_def
        OP_PUSHDATA4_def)
  have s1: "isSmallInt OP_1" "isSmallInt 0x52"
    by (simp_all add: isSmallInt_def OP_0_def OP_1_def OP_16_def)
  have a: "asSmallInt OP_1 = 1" "asSmallInt 0x52 = 2"
    by (simp_all add: asSmallInt_def OP_0_def OP_1_def)
  have f1: "[OP_1, OP_DATA_33] @ testPubKey @ [OP_1, OP_CHECKMULTISIG] =
              OP_1 # instructions [(OP_DATA_33, testPubKey)] @ [OP_1, OP_CHECKMULTISIG]"
    by (simp add: instructions_def i)
  have f2: "[0x52, OP_DATA_33] @ testPubKey @ [OP_1, OP_CHECKMULTISIG] =
              0x52 # instructions [(OP_DATA_33, testPubKey)] @ [OP_1, OP_CHECKMULTISIG]"
    by (simp add: instructions_def i)
  note t1 = multisig_classification
              [of "[OP_1, OP_DATA_33] @ testPubKey @ [OP_1, OP_CHECKMULTISIG]" True]
  note t2 = multisig_classification
              [of "[0x52, OP_DATA_33] @ testPubKey @ [OP_1, OP_CHECKMULTISIG]" True]
  have e1: "\<exists>m ks nb.
      [OP_1, OP_DATA_33] @ testPubKey @ [OP_1, OP_CHECKMULTISIG] =
        m # instructions ks @ [nb, OP_CHECKMULTISIG] \<and>
      isSmallInt m \<and> isSmallInt nb \<and> list_all isKeyInstruction ks \<and>
      asSmallInt nb = int (length ks)"
  proof (intro exI conjI)
    show "[OP_1, OP_DATA_33] @ testPubKey @ [OP_1, OP_CHECKMULTISIG] =
            OP_1 # instructions [(OP_DATA_33, testPubKey)] @ [OP_1, OP_CHECKMULTISIG]"
      by (rule f1)
    show "isSmallInt OP_1" by (rule s1(1))
    show "isSmallInt OP_1" by (rule s1(1))
    show "list_all isKeyInstruction [(OP_DATA_33, testPubKey)]" by (rule k)
    show "asSmallInt OP_1 = int (length [(OP_DATA_33, testPubKey)])" by (simp add: a(1))
  qed
  have e2: "\<exists>m ks nb.
      [0x52, OP_DATA_33] @ testPubKey @ [OP_1, OP_CHECKMULTISIG] =
        m # instructions ks @ [nb, OP_CHECKMULTISIG] \<and>
      isSmallInt m \<and> isSmallInt nb \<and> list_all isKeyInstruction ks \<and>
      asSmallInt nb = int (length ks)"
  proof (intro exI conjI)
    show "[0x52, OP_DATA_33] @ testPubKey @ [OP_1, OP_CHECKMULTISIG] =
            0x52 # instructions [(OP_DATA_33, testPubKey)] @ [OP_1, OP_CHECKMULTISIG]"
      by (rule f2)
    show "isSmallInt 0x52" by (rule s1(2))
    show "isSmallInt OP_1" by (rule s1(1))
    show "list_all isKeyInstruction [(OP_DATA_33, testPubKey)]" by (rule k)
    show "asSmallInt OP_1 = int (length [(OP_DATA_33, testPubKey)])" by (simp add: a(1))
  qed
  have c1: "typeOfScript ([OP_1, OP_DATA_33] @ testPubKey @ [OP_1, OP_CHECKMULTISIG]) = MultiSigTy"
    by (rule iffD2 [OF t1 [THEN conjunct1] e1])
  have c2: "typeOfScript ([0x52, OP_DATA_33] @ testPubKey @ [OP_1, OP_CHECKMULTISIG]) = MultiSigTy"
    by (rule iffD2 [OF t2 [THEN conjunct1] e2])
  have d1: "requiredSigs
     (extractMultisigScriptDetails ([OP_1, OP_DATA_33] @ testPubKey @ [OP_1, OP_CHECKMULTISIG]) True) = 1 \<and>
   numPubKeys
     (extractMultisigScriptDetails ([OP_1, OP_DATA_33] @ testPubKey @ [OP_1, OP_CHECKMULTISIG]) True) = 1"
    using t1 [THEN conjunct2, rule_format, of OP_1 "[(OP_DATA_33, testPubKey)]" OP_1] f1 s1(1) k a(1)
    by simp
  have d2: "requiredSigs
     (extractMultisigScriptDetails ([0x52, OP_DATA_33] @ testPubKey @ [OP_1, OP_CHECKMULTISIG]) True) = 2"
    using t2 [THEN conjunct2, rule_format, of "0x52" "[(OP_DATA_33, testPubKey)]" OP_1] f2 s1 k a
    by simp
  from c1 c2 d1 d2 show ?thesis by (intro conjI) simp_all
qed

text \<open>
  C6. A script is classified as pubkeyhash exactly when it is the 25 bytes
  \<open>OP_DUP OP_HASH160 OP_DATA_20 <20 bytes> OP_EQUALVERIFY OP_CHECKSIG\<close>. The script
  \<open>76a914b19e5c5433afbf7aca8a73949a48fa6b41a1089d88ac\<close> is classified so, under the
  name \<open>pubkeyhash\<close>; with the test network's parameters (address version
  \<open>0x6d\<close>) \<open>ExtractPkScriptAddrs\<close> returns the one address of its hash, whose
  Base58Check encoding is \<open>m92udt8YzZ3B2WZ4uzjuL5sdaQuNnLM8KU\<close>.
\<close>

theorem pubKeyHash_classification:
  "(typeOfScript s = PubKeyHashTy \<longleftrightarrow>
      (\<exists>h. length h = 20 \<and>
           s = [OP_DUP, OP_HASH160, OP_DATA_20] @ h @ [OP_EQUALVERIFY, OP_CHECKSIG])) \<and>
   typeOfScript testPkScript = PubKeyHashTy \<and>
   ScriptClass_String (typeOfScript testPkScript) = Inr ''pubkeyhash'' \<and>
   PubKeyHashAddrID TestNet3Params = 0x6d \<and>
   (case ExtractPkScriptAddrs newAddressPubKey testPkScript TestNet3Params of
      (c, addrs, n) \<Rightarrow>
        c = PubKeyHashTy \<and> n = 1 \<and>
        addrs = [AddressPubKeyHash testPubKeyHash 0x6d] \<and>
        map EncodeAddress addrs = [Some ''m92udt8YzZ3B2WZ4uzjuL5sdaQuNnLM8KU''])"
proof -
  have a: "typeOfScript s = PubKeyHashTy \<longleftrightarrow>
      (\<exists>h. length h = 20 \<and>
           s = [OP_DUP, OP_HASH160, OP_DATA_20] @ h @ [OP_EQUALVERIFY, OP_CHECKSIG])"
    by (simp only: typeOfScript_PubKeyHashTy isPubKeyHashScript_iff)
  have l: "length testPubKeyHash = 20" by (simp add: testPubKeyHash_def)
  have x: "extractPubKeyHash testPkScript = Some testPubKeyHash"
    using l
    by (simp add: extractPubKeyHash_def testPkScript_def OP_DUP_def OP_HASH160_def OP_DATA_20_def
        OP_EQUALVERIFY_def OP_CHECKSIG_def nth_append)
  then have "isPubKeyHashScript testPkScript" by (simp add: isPubKeyHashScript_def)
  then have b: "typeOfScript testPkScript = PubKeyHashTy" by (simp only: typeOfScript_PubKeyHashTy)
  have c: "ScriptClass_String PubKeyHashTy = Inr ''pubkeyhash''"
    by (simp add: ScriptClass_String_def PubKeyHashTy_def scriptClassToName_def)
  have d: "PubKeyHashAddrID TestNet3Params = 0x6d" by (simp add: TestNet3Params_def)
  have e: "base58_CheckEncode testPubKeyHash 0x6d = ''m92udt8YzZ3B2WZ4uzjuL5sdaQuNnLM8KU''"
    by code_simp
  have f: "ExtractPkScriptAddrs newAddressPubKey testPkScript TestNet3Params =
      (PubKeyHashTy, [AddressPubKeyHash testPubKeyHash 0x6d], 1)"
    using x l d by (simp add: ExtractPkScriptAddrs_def pubKeyHashToAddrs_def NewAddressPubKeyHash_def)
  show ?thesis
    using a b c d e by (simp add: f)
qed

text \<open>
  C7. A script is classified as nulldata exactly when it is the single byte \<open>OP_RETURN\<close>,
  or \<open>OP_RETURN\<close> followed by exactly one push instruction with at most 80 bytes of
  data. The push instructions are \<open>OP_0\<close> and \<open>OP_1 .. OP_16\<close> (no data bytes),
  \<open>OP_DATA_1 .. OP_DATA_75\<close> and \<open>OP_PUSHDATA1/2/4\<close>. A script that is empty or does not
  start with \<open>OP_RETURN\<close>, one with anything after the first instruction that follows
  \<open>OP_RETURN\<close>, and one that pushes more than 80 bytes are not nulldata.
\<close>

theorem nullData_classification:
  "(typeOfScript s = NullDataTy \<longleftrightarrow> isNullDataScript s) \<and>
   (isNullDataScript s \<longleftrightarrow>
      s = [OP_RETURN] \<or>
      (\<exists>opc d. s = OP_RETURN # instruction opc d \<and> wellFormedInstruction opc d \<and>
         (isSmallInt opc \<or> opc \<le> OP_PUSHDATA4) \<and> length d \<le> 80)) \<and>
   (s = [] \<or> s ! 0 \<noteq> OP_RETURN \<longrightarrow> \<not> isNullDataScript s) \<and>
   (wellFormedInstruction opc d \<and> rest \<noteq> [] \<longrightarrow>
      \<not> isNullDataScript (OP_RETURN # instruction opc d @ rest)) \<and>
   (wellFormedInstruction opc d \<and> 80 < length d \<longrightarrow>
      \<not> isNullDataScript (OP_RETURN # instruction opc d @ rest))"
proof -
  have a: "\<not> isNullDataScript (OP_RETURN # instruction opc d @ rest)"
    if wf: "wellFormedInstruction opc d" and c: "rest \<noteq> [] \<or> 80 < length d"
  proof -
    let ?s = "OP_RETURN # instruction opc d @ rest"
    let ?t0 = "MakeScriptTokenizer (drop 1 ?s)"
    have d0: "drop (offset ?t0) (script ?t0) = instruction opc d @ rest" by simp
    from Next_instruction [OF _ d0 wf]
    have nx: "Next ?t0 = (True, ?t0\<lparr>offset := length (instruction opc d), op := opc, data := d\<rparr>)"
      by simp
    show ?thesis
      using nx c by (auto simp: isNullDataScript_def Done_def MaxDataCarrierSize_def)
  qed
  have c1: "typeOfScript s = NullDataTy \<longleftrightarrow> isNullDataScript s"
    by (rule typeOfScript_NullDataTy)
  have c2: "isNullDataScript s \<longleftrightarrow>
      s = [OP_RETURN] \<or>
      (\<exists>opc d. s = OP_RETURN # instruction opc d \<and> wellFormedInstruction opc d \<and>
         (isSmallInt opc \<or> opc \<le> OP_PUSHDATA4) \<and> length d \<le> 80)"
    using isNullDataScript_iff [of s] by (simp only: MaxDataCarrierSize_def)
  have c3: "s = [] \<or> s ! 0 \<noteq> OP_RETURN \<longrightarrow> \<not> isNullDataScript s"
    by (auto simp: isNullDataScript_def)
  have c4: "wellFormedInstruction opc d \<and> rest \<noteq> [] \<longrightarrow>
      \<not> isNullDataScript (OP_RETURN # instruction opc d @ rest)"
    using a by blast
  have c5: "wellFormedInstruction opc d \<and> 80 < length d \<longrightarrow>
      \<not> isNullDataScript (OP_RETURN # instruction opc d @ rest)"
    using a by blast
  show ?thesis
    by (intro conjI) (rule c1, rule c2, rule c3, rule c4, rule c5)
qed

text \<open>
  \<open>OP_RETURN\<close> with a push of the two bytes \<open>ab cd\<close> is nulldata; with a second
  instruction after the push, or with a push of 81 bytes, it is not.
\<close>

theorem nullData_classification_witness:
  "isNullDataScript [OP_RETURN, 0x02, 0xab, 0xcd] \<and>
   \<not> isNullDataScript [0x02, 0xab, 0xcd] \<and>
   \<not> isNullDataScript (OP_RETURN # instruction 0x02 [0xab, 0xcd] @ [OP_1]) \<and>
   \<not> isNullDataScript (OP_RETURN # instruction OP_PUSHDATA1 (replicate 81 0) @ [])"
proof -
  have w1: "wellFormedInstruction 0x02 [0xab, 0xcd]"
    by (simp add: wellFormedInstruction_def OP_DATA_75_def)
  have i1: "instruction 0x02 [0xab, 0xcd] = [0x02, 0xab, 0xcd]"
    by (simp add: instruction_def OP_PUSHDATA1_def OP_PUSHDATA2_def OP_PUSHDATA4_def)
  have p1: "(0x02 :: byte) \<le> OP_PUSHDATA4" by (simp add: OP_PUSHDATA4_def)
  have w2: "wellFormedInstruction OP_PUSHDATA1 (replicate 81 0)"
    by (simp add: wellFormedInstruction_def OP_PUSHDATA1_def OP_DATA_75_def)
  note iff = nullData_classification
                 [of "[OP_RETURN, 0x02, 0xab, 0xcd]" 0 "[]" "[]", THEN conjunct2, THEN conjunct1]
  have "[OP_RETURN, 0x02, 0xab, 0xcd] = OP_RETURN # instruction 0x02 [0xab, 0xcd] \<and>
      wellFormedInstruction 0x02 [0xab, 0xcd] \<and>
      (isSmallInt 0x02 \<or> 0x02 \<le> OP_PUSHDATA4) \<and> length [0xab, 0xcd :: byte] \<le> 80"
    using w1 i1 p1 by simp
  then have "isNullDataScript [OP_RETURN, 0x02, 0xab, 0xcd]"
    unfolding iff by blast
  moreover have "\<not> isNullDataScript [0x02, 0xab, 0xcd]"
    using nullData_classification [of "[0x02, 0xab, 0xcd]" 0 "[]" "[]"]
    by (simp add: OP_RETURN_def)
  moreover have "\<not> isNullDataScript (OP_RETURN # instruction 0x02 [0xab, 0xcd] @ [OP_1])"
    using nullData_classification [of "[]" "0x02" "[0xab, 0xcd]" "[OP_1]"] w1 by simp
  moreover have "\<not> isNullDataScript (OP_RETURN # instruction OP_PUSHDATA1 (replicate 81 0) @ [])"
    using nullData_classification [of "[]" OP_PUSHDATA1 "replicate 81 0" "[]"] w2 by simp
  ultimately show ?thesis by blast
qed

section \<open>Properties of the script class names\<close>

text \<open>
  What \<open>String\<close> returns for every value of the byte: the name of the class below 6,
  a panic at 6, and \<open>Invalid\<close> above.
\<close>

lemma ScriptClass_String_cases:
  "ScriptClass_String t =
     (if t < 6 then Inr (scriptClassToName ! unat t)
      else if t = 6 then Inl IndexOutOfRange else Inr ''Invalid'')"
proof -
  have a: "t < 6 \<longleftrightarrow> uint t < 6" by (simp add: word_less_def)
  have b: "t = 6 \<longleftrightarrow> uint t = 6" by (simp add: word_uint_eq_iff)
  have c: "unat t < 6 \<longleftrightarrow> uint t < 6" unfolding uint_nat by arith
  have l: "length scriptClassToName = 6" by (simp add: scriptClassToName_def)
  have d: "unat t < length scriptClassToName \<longleftrightarrow> uint t < 6"
    unfolding l by (rule c)
  have e: "int (unat t) > int (length scriptClassToName) \<longleftrightarrow> 6 < uint t"
    unfolding l by simp
  show ?thesis
    unfolding ScriptClass_String_def a b d e by auto
qed

lemma ScriptClass_String_panics_iff:
  "(\<exists>e. ScriptClass_String t = Inl e) \<longleftrightarrow> t = 6"
  by (simp add: ScriptClass_String_cases)

lemma ScriptClass_String_names:
  "ScriptClass_String NonStandardTy = Inr ''nonstandard''"
  "ScriptClass_String PubKeyTy = Inr ''pubkey''"
  "ScriptClass_String PubKeyHashTy = Inr ''pubkeyhash''"
  "ScriptClass_String ScriptHashTy = Inr ''scripthash''"
  "ScriptClass_String MultiSigTy = Inr ''multisig''"
  "ScriptClass_String NullDataTy = Inr ''nulldata''"
  by (simp_all add: ScriptClass_String_def scriptClassToName_def NonStandardTy_def PubKeyTy_def
      PubKeyHashTy_def ScriptHashTy_def MultiSigTy_def NullDataTy_def)

lemma ScriptClass_String_Invalid:
  "6 < t \<Longrightarrow> ScriptClass_String t = Inr ''Invalid''"
  by (auto simp add: ScriptClass_String_cases)

text \<open>
  C10. The claim is that \<open>String\<close> returns for every byte, with \<open>Invalid\<close> for every
  value that is not one of the six classes. At the value 6, the first one past the table,
  the guard \<open>int(t) > len(scriptClassToName)\<close> does not fire and the index expression
  panics.
\<close>

theorem ScriptClass_String_6_panics:
  "ScriptClass_String 6 = Inl IndexOutOfRange"
  by (simp add: ScriptClass_String_def scriptClassToName_def)

end
